theory Spec2Isabelle
  imports Main "HOL-Library.Word"
begin

unbundle bit_operations_syntax

section \<open>Paths\<close>

text \<open>
  Paths are POSIX path strings, as the build script handles them. The functions below
  follow \<^verbatim>\<open>posixpath\<close>: \<^verbatim>\<open>dirname(p)\<close> takes \<^verbatim>\<open>p[:p.rfind('/') + 1]\<close> and strips its
  trailing slashes unless it consists of slashes only.
\<close>

type_synonym path = string

definition head_part :: "string \<Rightarrow> string" where
  "head_part p = rev (dropWhile (\<lambda>c. c \<noteq> CHR ''/'') (rev p))"

definition tail_part :: "string \<Rightarrow> string" where
  "tail_part p = rev (takeWhile (\<lambda>c. c \<noteq> CHR ''/'') (rev p))"

definition rstrip_sep :: "string \<Rightarrow> string" where
  "rstrip_sep s = rev (dropWhile (\<lambda>c. c = CHR ''/'') (rev s))"

definition strip_head :: "string \<Rightarrow> string" where
  "strip_head h = (if h \<noteq> [] \<and> \<not> list_all (\<lambda>c. c = CHR ''/'') h then rstrip_sep h else h)"

definition dirname :: "path \<Rightarrow> path" where
  "dirname p = strip_head (head_part p)"

definition path_split :: "path \<Rightarrow> path \<times> string" where
  "path_split p = (strip_head (head_part p), tail_part p)"

definition path_join :: "path \<Rightarrow> string \<Rightarrow> path" where
  "path_join a b =
     (if b \<noteq> [] \<and> hd b = CHR ''/'' then b
      else if a = [] \<or> last a = CHR ''/'' then a @ b
      else a @ ''/'' @ b)"

section \<open>Errors\<close>

text \<open>
  Every exception the modelled code can raise is a value. \<open>DownloadError\<close> and
  \<open>CommandFailedError\<close> are the two classes the script declares; \<open>DownloadError\<close>
  carries the last error text (\<open>None\<close> when no mirror was tried).
  Modelled from the spec: the exception classes \<open>PermissionDeniedError\<close> and
  \<open>NoOverwriteError\<close>, which \<^verbatim>\<open>prepare_path\<close> and \<^verbatim>\<open>prepare_directory\<close> raise by name
  but whose declarations are not part of the script; each carries the offending path.
  The remaining constructors are Python's own exceptions, raised where the script
  indexes an empty list, passes \<^verbatim>\<open>None\<close> for a path, or recurses without end;
  \<open>OtherError\<close> is any other exception of the libraries, by its name.
\<close>

datatype error =
    DownloadError "string option"
  | CommandFailedError string
  | PermissionDeniedError path
  | NoOverwriteError path
  | RecursionError
  | TypeError
  | IndexError
  | AttributeError
  | ValueError
  | IsADirectoryError path
  | FileExistsError path
  | FileNotFoundError path
  | OtherError string

section \<open>The file system\<close>

text \<open>
  The part of the file system the script observes: which paths exist and what they are,
  and whether the calling user may write to them. \<^verbatim>\<open>os.access(p, os.W_OK)\<close> is false for
  a path that does not exist.
\<close>

datatype entry = File string | Dir | Symlink string

record filesystem =
  entries :: "path \<Rightarrow> entry option"
  wperm :: "path \<Rightarrow> bool"

definition path_exists :: "filesystem \<Rightarrow> path \<Rightarrow> bool" where
  "path_exists fs p = (entries fs p \<noteq> None)"

definition access_W_OK :: "filesystem \<Rightarrow> path \<Rightarrow> bool" where
  "access_W_OK fs p = (path_exists fs p \<and> wperm fs p)"

definition mkdir :: "filesystem \<Rightarrow> path \<Rightarrow> filesystem" where
  "mkdir fs p = fs\<lparr>entries := (entries fs)(p \<mapsto> Dir), wperm := (wperm fs)(p := True)\<rparr>"

lemma rstrip_sep_length: "length (rstrip_sep s) \<le> length s"
  unfolding rstrip_sep_def
  by (metis length_dropWhile_le length_rev)

lemma head_part_length: "length (head_part p) \<le> length p"
  unfolding head_part_def
  by (metis length_dropWhile_le length_rev)

lemma rstrip_sep_fixed: "length (rstrip_sep s) = length s \<Longrightarrow> rstrip_sep s = s"
proof -
  assume a: "length (rstrip_sep s) = length s"
  have "dropWhile (\<lambda>c. c = CHR ''/'') (rev s) = rev s"
  proof (cases "rev s")
    case Nil
    then show ?thesis by simp
  next
    case (Cons c cs)
    show ?thesis
    proof (cases "c = CHR ''/''")
      case True
      have "length (dropWhile (\<lambda>c. c = CHR ''/'') cs) \<le> length cs"
        by (rule length_dropWhile_le)
      with a Cons True show ?thesis
        by (simp add: rstrip_sep_def)
    next
      case False
      with Cons show ?thesis by simp
    qed
  qed
  then show ?thesis by (simp add: rstrip_sep_def)
qed

lemma head_part_fixed: "length (head_part p) = length p \<Longrightarrow> head_part p = p"
proof -
  assume a: "length (head_part p) = length p"
  have "dropWhile (\<lambda>c. c \<noteq> CHR ''/'') (rev p) = rev p"
  proof (cases "rev p")
    case Nil
    then show ?thesis by simp
  next
    case (Cons c cs)
    show ?thesis
    proof (cases "c \<noteq> CHR ''/''")
      case True
      have "length (dropWhile (\<lambda>c. c \<noteq> CHR ''/'') cs) \<le> length cs"
        by (rule length_dropWhile_le)
      with a Cons True show ?thesis
        by (simp add: head_part_def)
    next
      case False
      with Cons show ?thesis by simp
    qed
  qed
  then show ?thesis by (simp add: head_part_def)
qed

lemma strip_head_length: "length (strip_head h) \<le> length h"
  by (simp add: strip_head_def rstrip_sep_length)

lemma strip_head_fixed: "length (strip_head h) = length h \<Longrightarrow> strip_head h = h"
  by (auto simp: strip_head_def rstrip_sep_fixed)

lemma dirname_length: "length (dirname p) \<le> length p"
  unfolding dirname_def
  by (meson head_part_length le_trans strip_head_length)

lemma dirname_shorter: "dirname p \<noteq> p \<Longrightarrow> length (dirname p) < length p"
proof (rule ccontr)
  assume ne: "dirname p \<noteq> p" and "\<not> length (dirname p) < length p"
  with dirname_length [of p] have eq: "length (dirname p) = length p" by simp
  have "length (strip_head (head_part p)) \<le> length (head_part p)"
    by (rule strip_head_length)
  with eq head_part_length [of p] have h: "length (head_part p) = length p"
    and s: "length (strip_head (head_part p)) = length (head_part p)"
    by (simp_all add: dirname_def)
  from h have "head_part p = p" by (rule head_part_fixed)
  moreover from s have "strip_head (head_part p) = head_part p" by (rule strip_head_fixed)
  ultimately show False using ne by (simp add: dirname_def)
qed

text \<open>
  \<^verbatim>\<open>os.makedirs\<close>, by its documented effect: the leaf directory and every missing
  intermediate directory are created, owned by the caller. The script only calls it on a
  directory it has just found missing, below an ancestor it found writable.
\<close>

function makedirs :: "filesystem \<Rightarrow> path \<Rightarrow> filesystem" where
  "makedirs fs name =
     mkdir (if dirname name \<noteq> [] \<and> dirname name \<noteq> name \<and> \<not> path_exists fs (dirname name)
            then makedirs fs (dirname name) else fs) name"
  by pat_completeness auto
termination
  by (relation "measure (\<lambda>(fs, name). length name)") (auto simp: dirname_shorter)

section \<open>Preparing directories\<close>



text \<open>
  The nested \<^verbatim>\<open>check_permission\<close> of \<^verbatim>\<open>prepare_path\<close>. It inspects the parent of its
  argument, recurses on that parent, and names its argument in the error.
\<close>

function check_permission_path :: "filesystem \<Rightarrow> path \<Rightarrow> error + path option" where
  "check_permission_path fs path =
     (if access_W_OK fs (dirname path) \<and> path_exists fs (dirname path) then Inr (Some (dirname path))
      else if \<not> (access_W_OK fs (dirname path) \<or> path_exists fs (dirname path)) then
        (if dirname path = path then Inl RecursionError
         else check_permission_path fs (dirname path))
      else if path_exists fs (dirname path) \<and> \<not> access_W_OK fs (dirname path) then
        Inl (PermissionDeniedError path)
      else Inr None)"
  by pat_completeness auto
termination
  by (relation "measure (\<lambda>(fs, p). length p)") (auto simp: dirname_shorter)

definition prepare_path :: "filesystem \<Rightarrow> path \<Rightarrow> bool \<Rightarrow> error + filesystem" where
  "prepare_path fs path overwrite =
     (case check_permission_path fs path of
        Inl e \<Rightarrow> Inl e
      | Inr available \<Rightarrow>
          if path_exists fs path then
            (if \<not> overwrite then Inl (NoOverwriteError path) else Inr fs)
          else if Some (dirname path) \<noteq> available then Inr (makedirs fs (dirname path))
          else Inr fs)"

section \<open>SHA-1\<close>

text \<open>
  \<^verbatim>\<open>hashlib.sha1(content).hexdigest()\<close>: SHA-1 as FIPS 180-4 defines it, on the bytes of the
  string, printed as forty lower-case hexadecimal digits.
\<close>

type_synonym u32 = "32 word"

definition rotl :: "nat \<Rightarrow> u32 \<Rightarrow> u32" where
  "rotl n x = push_bit n x OR drop_bit (32 - n) x"

definition be64 :: "64 word \<Rightarrow> u32 list" where
  "be64 n = map (\<lambda>i. ucast (drop_bit (8 * i) n AND 0xFF)) [7, 6, 5, 4, 3, 2, 1, 0]"

definition sha1_pad :: "string \<Rightarrow> u32 list" where
  "sha1_pad m =
     map of_char m @ [0x80] @ replicate ((119 - length m mod 64) mod 64) 0 @
     be64 (8 * word_of_nat (length m))"

fun be_words :: "u32 list \<Rightarrow> u32 list" where
  "be_words (a # b # c # d # r) =
     (push_bit 24 a OR push_bit 16 b OR push_bit 8 c OR d) # be_words r"
| "be_words _ = []"

fun blocks :: "nat \<Rightarrow> u32 list \<Rightarrow> u32 list list" where
  "blocks 0 ws = []"
| "blocks (Suc n) ws = take 16 ws # blocks n (drop 16 ws)"

fun schedule :: "nat \<Rightarrow> u32 list \<Rightarrow> u32 list" where
  "schedule 0 ws = ws"
| "schedule (Suc n) ws =
     schedule n (ws @ [rotl 1 (ws ! (length ws - 3) XOR ws ! (length ws - 8) XOR
                               ws ! (length ws - 14) XOR ws ! (length ws - 16))])"

type_synonym sha1_state = "u32 \<times> u32 \<times> u32 \<times> u32 \<times> u32"

definition sha1_round :: "sha1_state \<Rightarrow> nat \<times> u32 \<Rightarrow> sha1_state" where
  "sha1_round st tw =
     (case st of (a, b, c, d, e) \<Rightarrow>
      case tw of (t, wt) \<Rightarrow>
        let f = (if t < 20 then (b AND c) OR (NOT b AND d)
                 else if t < 40 then b XOR c XOR d
                 else if t < 60 then (b AND c) OR (b AND d) OR (c AND d)
                 else b XOR c XOR d);
            k = (if t < 20 then 0x5A827999 else if t < 40 then 0x6ED9EBA1
                 else if t < 60 then 0x8F1BBCDC else 0xCA62C1D6)
        in (rotl 5 a + f + e + k + wt, a, rotl 30 b, c, d))"

definition sha1_block :: "sha1_state \<Rightarrow> u32 list \<Rightarrow> sha1_state" where
  "sha1_block h ws =
     (case h of (h0, h1, h2, h3, h4) \<Rightarrow>
      case foldl sha1_round h (zip [0..<80] (schedule 64 ws)) of (a, b, c, d, e) \<Rightarrow>
        (h0 + a, h1 + b, h2 + c, h3 + d, h4 + e))"

definition sha1_init :: sha1_state where
  "sha1_init = (0x67452301, 0xEFCDAB89, 0x98BADCFE, 0x10325476, 0xC3D2E1F0)"

definition sha1_digest :: "string \<Rightarrow> sha1_state" where
  "sha1_digest m =
     (let ws = be_words (sha1_pad m) in foldl sha1_block sha1_init (blocks (length ws div 16) ws))"

definition hex_digit :: "u32 \<Rightarrow> char" where
  "hex_digit x = ''0123456789abcdef'' ! unat (x AND 0xF)"

definition hex_word :: "u32 \<Rightarrow> string" where
  "hex_word x = map (\<lambda>i. hex_digit (drop_bit (4 * i) x)) [7, 6, 5, 4, 3, 2, 1, 0]"

definition sha1_hexdigest :: "string \<Rightarrow> string" where
  "sha1_hexdigest m =
     (case sha1_digest m of (a, b, c, d, e) \<Rightarrow>
        hex_word a @ hex_word b @ hex_word c @ hex_word d @ hex_word e)"

section \<open>The outside world\<close>

text \<open>
  What one \<^verbatim>\<open>urlopen\<close> call followed by \<^verbatim>\<open>response.read()\<close> can do: raise one of the
  three exceptions \<^verbatim>\<open>download\<close> catches, raise anything else (a malformed URL, a reset
  connection; \<open>Raises\<close> carries its name), or return the payload. \<open>HTTPError\<close> carries the status code and
  \<open>URLError\<close> the reason, both as \<^verbatim>\<open>format\<close> prints them.
\<close>

datatype fetch_result =
    BadStatusLine
  | HTTPError string
  | URLError string
  | Raises string
  | Response string

text \<open>
  The environment of one package operation. \<open>urlopen\<close> answers a request for a URL.
  \<open>popen\<close> runs a child process to its end (\<^verbatim>\<open>Popen\<close> and \<^verbatim>\<open>communicate\<close>): from the
  argument list, the working directory (\<open>None\<close> when it is inherited) and the file
  system it gives the return code and the file system the child leaves behind. The remaining fields are the pipeline's
  properties a package reads.
\<close>

record world =
  urlopen :: "string \<Rightarrow> fetch_result"
  popen :: "string list \<Rightarrow> path option \<Rightarrow> filesystem \<Rightarrow> int \<times> filesystem"
  platform :: string
  install_prefix :: path
  package_prefix :: path
  include_prefix :: path
  lib_prefix :: path

section \<open>Package nodes\<close>

text \<open>
  The node of a package as its constructor leaves it in the cache: the normalized
  descriptor fields the methods read, the document digest, and the four stage flags.
  \<open>remote_url\<close> is the field as \<^verbatim>\<open>download\<close> reads it (a single string is the
  one-element list).
\<close>

record node =
  name :: string
  display_name :: string
  version :: "string option"
  sha1 :: "string option"
  remote_url :: "string list option"
  download_url :: "path option"
  package_url :: "path option"
  compression :: "string option"
  document_sha1_digest :: string
  configure_optional :: "string list option"
  make_build_optional :: "string list option"
  make_build_target :: "string option"
  make_install_target :: string
  make_clean_target :: "string option"
  include_prefix_in_make :: bool
  unpacked :: bool
  configured :: bool
  built :: bool
  installed :: bool

text \<open>
  The state a package method works on: its node, the file system, and what has been
  observed of the run so far: the processes run (argument list, working directory and
  return code), the URLs requested and the warnings logged, each in order.
\<close>

record pstate =
  node :: node
  disk :: filesystem
  commands :: "(string list \<times> path option \<times> int) list"
  requests :: "string list"
  warnings :: "string list"

datatype outcome = Done | Raise error

type_synonym step = "pstate \<Rightarrow> outcome \<times> pstate"

definition and_then :: "step \<Rightarrow> step \<Rightarrow> step" where
  "and_then f g s = (case f s of (Done, s') \<Rightarrow> g s' | (Raise e, s') \<Rightarrow> (Raise e, s'))"

definition warn :: "string \<Rightarrow> pstate \<Rightarrow> pstate" where
  "warn msg s = s\<lparr>warnings := warnings s @ [msg]\<rparr>"

definition remove_file :: "filesystem \<Rightarrow> path \<Rightarrow> filesystem" where
  "remove_file fs p = fs\<lparr>entries := (entries fs)(p := None)\<rparr>"

definition write_file :: "filesystem \<Rightarrow> path \<Rightarrow> string \<Rightarrow> filesystem" where
  "write_file fs p content =
     fs\<lparr>entries := (entries fs)(p \<mapsto> File content), wperm := (wperm fs)(p := True)\<rparr>"

section \<open>Download\<close>

text \<open>
  One turn of the loop of \<^verbatim>\<open>Package.download\<close> over the mirrors, up to its decision. A
  mirror fails by one of the three caught exceptions or by a payload whose checksum
  differs from the declared one; \<open>Failed\<close> carries the text assigned to \<^verbatim>\<open>error\<close>. Any
  other exception is fatal. Otherwise the payload is accepted.
\<close>

datatype attempt = Failed string | Fatal error | Verified string

definition attempt_mirror :: "world \<Rightarrow> node \<Rightarrow> string \<Rightarrow> attempt" where
  "attempt_mirror w n url =
     (case urlopen w url of
        BadStatusLine \<Rightarrow> Failed (''Bad http status error when requesting '' @ url)
      | HTTPError code \<Rightarrow>
          Failed (''Server returned an error when requesting '' @ url @ '': '' @ code)
      | URLError reason \<Rightarrow>
          Failed (''Could not reach server when requesting '' @ url @ '': '' @ reason)
      | Raises e \<Rightarrow> Fatal (OtherError e)
      | Response content \<Rightarrow>
          (case sha1 n of
             Some declared \<Rightarrow>
               if sha1_hexdigest content \<noteq> declared then
                 Failed (display_name n @ '' checksum '' @ sha1_hexdigest content @
                         '' differs from '' @ declared)
               else Verified content
           | None \<Rightarrow> Verified content))"

text \<open>
  The loop itself. \<open>err\<close> is the variable \<^verbatim>\<open>error\<close>, the text of the last failure. Each
  failure is logged as a warning and the loop moves on. The first accepted payload is
  written to the download path (after \<^verbatim>\<open>prepare_path\<close>) and the loop stops (\<^verbatim>\<open>break\<close>).
  When the list is exhausted, \<open>DownloadError\<close> is raised with the last error.
\<close>

fun fetch :: "world \<Rightarrow> node \<Rightarrow> path \<Rightarrow> string list \<Rightarrow> string option \<Rightarrow> step" where
  "fetch w n target [] err s = (Raise (DownloadError err), s)"
| "fetch w n target (url # urls) err s =
     (case attempt_mirror w n url of
        Failed e \<Rightarrow> fetch w n target urls (Some e) (warn e (s\<lparr>requests := requests s @ [url]\<rparr>))
      | Fatal e \<Rightarrow> (Raise e, s\<lparr>requests := requests s @ [url]\<rparr>)
      | Verified content \<Rightarrow>
          (case prepare_path (disk s) target True of
             Inl e \<Rightarrow> (Raise e, s\<lparr>requests := requests s @ [url]\<rparr>)
           | Inr fs' \<Rightarrow>
               (Done, s\<lparr>requests := requests s @ [url], disk := write_file fs' target content\<rparr>)))"

text \<open>
  \<^verbatim>\<open>os.remove\<close> refuses a directory. Reading follows a symbolic link once; a directory
  cannot be opened for reading.
\<close>

definition os_remove :: "filesystem \<Rightarrow> path \<Rightarrow> error + filesystem" where
  "os_remove fs p =
     (case entries fs p of Some Dir \<Rightarrow> Inl (IsADirectoryError p) | other \<Rightarrow> Inr (remove_file fs p))"

definition read_file :: "filesystem \<Rightarrow> path \<Rightarrow> error + string" where
  "read_file fs p =
     (case entries fs p of
        Some (File content) \<Rightarrow> Inr content
      | Some (Symlink t) \<Rightarrow>
          (case entries fs (path_join (dirname p) t) of
             Some (File content) \<Rightarrow> Inr content
           | other \<Rightarrow> Inl (FileNotFoundError p))
      | Some Dir \<Rightarrow> Inl (IsADirectoryError p)
      | None \<Rightarrow> Inl (FileNotFoundError p))"

text \<open>
  The first half of \<^verbatim>\<open>Package.download\<close>: what is done with a file already at the
  download path. The result is the variable \<^verbatim>\<open>content\<close> (\<open>None\<close> when there is nothing
  usable) and the state. Without a declared checksum an existing file is removed. With
  one, the file is read and kept if its digest matches; otherwise it is removed with a
  warning.
\<close>

definition local_content :: "node \<Rightarrow> path \<Rightarrow> pstate \<Rightarrow> error + (string option \<times> pstate)" where
  "local_content n target s =
     (case (if sha1 n = None \<and> path_exists (disk s) target then os_remove (disk s) target
            else Inr (disk s)) of
        Inl e \<Rightarrow> Inl e
      | Inr fs1 \<Rightarrow>
          if path_exists fs1 target then
            (case read_file fs1 target of
               Inl e \<Rightarrow> Inl e
             | Inr content \<Rightarrow>
                 (case sha1 n of
                    Some declared \<Rightarrow>
                      if sha1_hexdigest content \<noteq> declared then
                        Inr (None, warn (''removing corrupt archive '' @ target)
                                     (s\<lparr>disk := remove_file fs1 target\<rparr>))
                      else Inr (Some content, s\<lparr>disk := fs1\<rparr>)
                  | None \<Rightarrow> Inr (Some content, s\<lparr>disk := fs1\<rparr>)))
          else Inr (None, s\<lparr>disk := fs1\<rparr>))"

text \<open>
  \<^verbatim>\<open>Package.download\<close>. Nothing happens without a download path. A usable local file
  ends the download at once. Otherwise the mirrors are tried in their declared order; a
  node without any remote URL makes \<^verbatim>\<open>Request(None)\<close> raise \<open>ValueError\<close>.
\<close>

definition download :: "world \<Rightarrow> step" where
  "download w s =
     (case download_url (node s) of
        None \<Rightarrow> (Done, s)
      | Some target \<Rightarrow>
          (case local_content (node s) target s of
             Inl e \<Rightarrow> (Raise e, s)
           | Inr (Some content, s1) \<Rightarrow> (Done, s1)
           | Inr (None, s1) \<Rightarrow>
               (case remote_url (node s1) of
                  None \<Rightarrow> (Raise ValueError, s1)
                | Some urls \<Rightarrow> fetch w (node s1) target urls None s1)))"

section \<open>Running commands\<close>

text \<open>The decimal text \<^verbatim>\<open>format\<close> prints for a return code.\<close>

definition digit_char :: "nat \<Rightarrow> char" where
  "digit_char n = ''0123456789'' ! (n mod 10)"

function str_nat :: "nat \<Rightarrow> string" where
  "str_nat n = (if n < 10 then [digit_char n] else str_nat (n div 10) @ [digit_char n])"
  by pat_completeness auto
termination
  by (relation "measure id") auto

definition str_int :: "int \<Rightarrow> string" where
  "str_int i = (if i < 0 then CHR ''-'' # str_nat (nat (- i)) else str_nat (nat i))"

text \<open>
  \<^verbatim>\<open>Popen\<close>, \<^verbatim>\<open>communicate\<close> and \<^verbatim>\<open>returncode\<close>: the child runs to its end, the call is
  recorded, the file system is what the child left. \<open>checked\<close> is the test every caller
  makes on the return code: zero lets the method go on, anything else raises
  \<open>CommandFailedError\<close> with the caller's message.
\<close>

definition run :: "world \<Rightarrow> string list \<Rightarrow> path option \<Rightarrow> pstate \<Rightarrow> int \<times> pstate" where
  "run w args cwd s =
     (case popen w args cwd (disk s) of
        (code, fs') \<Rightarrow> (code, s\<lparr>disk := fs', commands := commands s @ [(args, cwd, code)]\<rparr>))"

definition checked :: "world \<Rightarrow> string list \<Rightarrow> path option \<Rightarrow> (int \<Rightarrow> string) \<Rightarrow> step" where
  "checked w args cwd msg s =
     (case run w args cwd s of
        (code, s') \<Rightarrow>
          if code = 0 then (Done, s') else (Raise (CommandFailedError (msg code)), s'))"

text \<open>
  \<^verbatim>\<open>remove_directory\<close>: nothing to do when the directory is not there; otherwise
  \<^verbatim>\<open>rm -rf\<close>. \<^verbatim>\<open>os.path.exists(None)\<close> raises \<open>TypeError\<close>.
\<close>

definition remove_directory :: "world \<Rightarrow> path option \<Rightarrow> step" where
  "remove_directory w directory s =
     (case directory of
        None \<Rightarrow> (Raise TypeError, s)
      | Some d \<Rightarrow>
          if path_exists (disk s) d then
            checked w [''rm'', ''-rf'', d] None (\<lambda>code. ''failed to remove directory '' @ d) s
          else (Done, s))"

section \<open>The package lifecycle\<close>

text \<open>The classes a package can be an instance of.\<close>

datatype implementation = Package | Make | BZip2 | LibDeflate | RapidJSON | SAMTools

definition mark_unpacked :: "bool \<Rightarrow> pstate \<Rightarrow> pstate" where
  "mark_unpacked b s = s\<lparr>node := (node s)\<lparr>unpacked := b\<rparr>\<rparr>"

definition mark_configured :: "bool \<Rightarrow> pstate \<Rightarrow> pstate" where
  "mark_configured b s = s\<lparr>node := (node s)\<lparr>configured := b\<rparr>\<rparr>"

definition mark_built :: "bool \<Rightarrow> pstate \<Rightarrow> pstate" where
  "mark_built b s = s\<lparr>node := (node s)\<lparr>built := b\<rparr>\<rparr>"

definition mark_installed :: "bool \<Rightarrow> pstate \<Rightarrow> pstate" where
  "mark_installed b s = s\<lparr>node := (node s)\<lparr>installed := b\<rparr>\<rparr>"

definition reset_build_flags :: "pstate \<Rightarrow> pstate" where
  "reset_build_flags s = mark_installed False (mark_built False (mark_configured False s))"

text \<open>
  \<^verbatim>\<open>Package.clean_package\<close>: for a package with a download path, remove the package
  directory and reset the four flags. \<^verbatim>\<open>Package.clean\<close> resets three flags.
\<close>

definition clean_package :: "world \<Rightarrow> step" where
  "clean_package w s =
     (if download_url (node s) \<noteq> None then
        and_then (remove_directory w (package_url (node s)))
          (\<lambda>s'. (Done, reset_build_flags (mark_unpacked False s'))) s
      else (Done, s))"

definition Package_clean :: step where
  "Package_clean s = (Done, reset_build_flags s)"

text \<open>
  \<^verbatim>\<open>Package.unpack\<close>. The extraction command depends on the compression; for any other
  compression the argument list stays empty and \<^verbatim>\<open>Popen\<close> raises \<open>IndexError\<close>.
\<close>

definition unpack_command :: "node \<Rightarrow> path \<Rightarrow> string list" where
  "unpack_command n archive =
     (if compression n = Some ''gz'' then [''tar'', ''-x'', ''-z'', ''-f'', archive]
      else if compression n = Some ''bz2'' then [''tar'', ''-x'', ''-j'', ''-f'', archive]
      else if compression n = Some ''zip'' then [''unzip'', ''-x'', archive]
      else [])"

definition extract_archive :: "world \<Rightarrow> path \<Rightarrow> step" where
  "extract_archive w archive s =
     (if unpack_command (node s) archive = [] then (Raise IndexError, s)
      else and_then
             (checked w (unpack_command (node s) archive) (Some (package_prefix w))
                (\<lambda>code. ''tar returned '' @ str_int code))
             (\<lambda>s'. (Done, mark_unpacked True s')) s)"

definition unpack :: "world \<Rightarrow> step" where
  "unpack w s =
     (if \<not> unpacked (node s) then
        and_then (clean_package w)
          (\<lambda>s1. case download_url (node s1) of
                   None \<Rightarrow> (Done, s1)
                 | Some archive \<Rightarrow> and_then (download w) (extract_archive w archive) s1) s
      else (Done, s))"

text \<open>The optional parts of a \<^verbatim>\<open>make\<close> or \<^verbatim>\<open>configure\<close> command line.\<close>

definition optional_args :: "string list option \<Rightarrow> string list" where
  "optional_args xs = (case xs of None \<Rightarrow> [] | Some l \<Rightarrow> l)"

definition target_arg :: "string option \<Rightarrow> string list" where
  "target_arg t = (case t of None \<Rightarrow> [] | Some x \<Rightarrow> if x = [] then [] else [x])"

definition prefix_arg :: "world \<Rightarrow> node \<Rightarrow> string list" where
  "prefix_arg w n = (if include_prefix_in_make n then [''PREFIX='' @ install_prefix w] else [])"

text \<open>\<^verbatim>\<open>Package.configure\<close> and \<^verbatim>\<open>Make.configure\<close>; a package is configured by the one its class inherits.\<close>

definition Package_configure :: "world \<Rightarrow> step" where
  "Package_configure w s =
     (if \<not> configured (node s) then
        and_then (unpack w) (\<lambda>s'. (Done, mark_configured True s')) s
      else (Done, s))"

definition Make_configure :: "world \<Rightarrow> step" where
  "Make_configure w s =
     (if \<not> configured (node s) then
        (case package_url (node s) of
           None \<Rightarrow> (Done, s)
         | Some dir \<Rightarrow>
             and_then (unpack w)
               (\<lambda>s1. if path_exists (disk s1) (path_join dir ''configure'') then
                        and_then
                          (checked w
                             ([''./configure'', ''--prefix='' @ install_prefix w] @
                              optional_args (configure_optional (node s1)))
                             (Some dir) (\<lambda>code. ''configure returned '' @ str_int code))
                          (\<lambda>s2. (Done, mark_configured True s2)) s1
                      else (Done, mark_configured True s1)) s)
      else (Done, s))"

definition configure :: "implementation \<Rightarrow> world \<Rightarrow> step" where
  "configure k w =
     (if k = Package \<or> k = RapidJSON then Package_configure w else Make_configure w)"

text \<open>
  \<^verbatim>\<open>Package.build\<close>, \<^verbatim>\<open>Make.build\<close> and \<^verbatim>\<open>BZip2.build\<close>. Each calls \<^verbatim>\<open>self.configure()\<close>,
  which is the method of the package's own class.
\<close>

definition Package_build :: "implementation \<Rightarrow> world \<Rightarrow> step" where
  "Package_build k w s =
     (if \<not> built (node s) then
        and_then (configure k w) (\<lambda>s'. (Done, mark_built True s')) s
      else (Done, s))"

definition Make_build :: "implementation \<Rightarrow> world \<Rightarrow> step" where
  "Make_build k w s =
     (if \<not> built (node s) then
        and_then (configure k w)
          (\<lambda>s1. case package_url (node s1) of
                   None \<Rightarrow> (Done, s1)
                 | Some dir \<Rightarrow>
                     and_then
                       (checked w
                          ([''make''] @ target_arg (make_build_target (node s1)) @
                           prefix_arg w (node s1) @ optional_args (make_build_optional (node s1)))
                          (Some dir) (\<lambda>code. ''make returned '' @ str_int code))
                       (\<lambda>s2. (Done, mark_built True s2)) s1) s
      else (Done, s))"

text \<open>
  \<^verbatim>\<open>str.split('.')\<close>, \<^verbatim>\<open>'.'.join\<close> and \<^verbatim>\<open>os.symlink\<close>, for \<^verbatim>\<open>BZip2.install_dynamic\<close>: the
  shared library is copied under its full version, then one link is made for each
  shorter version, longest first. \<^verbatim>\<open>os.symlink\<close> refuses a path that exists. A node
  without a version prints as \<^verbatim>\<open>None\<close> in the file name and then fails on \<^verbatim>\<open>split\<close>.
\<close>

fun split_on :: "char \<Rightarrow> string \<Rightarrow> string list" where
  "split_on c [] = [[]]"
| "split_on c (x # xs) =
     (if x = c then [] # split_on c xs
      else (case split_on c xs of [] \<Rightarrow> [[x]] | h # t \<Rightarrow> (x # h) # t))"

fun join_with :: "string \<Rightarrow> string list \<Rightarrow> string" where
  "join_with d [] = []"
| "join_with d [x] = x"
| "join_with d (x # y # ys) = x @ d @ join_with d (y # ys)"

definition os_symlink :: "string \<Rightarrow> path \<Rightarrow> pstate \<Rightarrow> outcome \<times> pstate" where
  "os_symlink src dst s =
     (if path_exists (disk s) dst then (Raise (FileExistsError dst), s)
      else (Done, s\<lparr>disk := (disk s)\<lparr>entries := (entries (disk s))(dst \<mapsto> Symlink src)\<rparr>\<rparr>))"

fun link_versions :: "world \<Rightarrow> string \<Rightarrow> nat \<Rightarrow> string list \<Rightarrow> step" where
  "link_versions w full 0 parts s = (Done, s)"
| "link_versions w full (Suc n) parts s =
     (if length parts > 1 then
        and_then
          (os_symlink full (path_join (lib_prefix w) (''libbz2.so.'' @ join_with ''.'' (butlast parts))))
          (link_versions w full n (butlast parts)) s
      else (Done, s))"

definition install_dynamic :: "world \<Rightarrow> path \<Rightarrow> step" where
  "install_dynamic w dir s =
     (let full = ''libbz2.so.'' @ (case version (node s) of None \<Rightarrow> ''None'' | Some v \<Rightarrow> v) in
      and_then
        (checked w [''rsync'', ''--copy-links'', path_join dir full, path_join (lib_prefix w) full]
           (Some dir) (\<lambda>code. ''rsync returned '' @ str_int code))
        (\<lambda>s1. case version (node s1) of
                 None \<Rightarrow> (Raise AttributeError, s1)
               | Some v \<Rightarrow> link_versions w full (length (split_on CHR ''.'' v)) (split_on CHR ''.'' v) s1) s)"

definition BZip2_build :: "implementation \<Rightarrow> world \<Rightarrow> step" where
  "BZip2_build k w s =
     (if platform w = ''Linux'' then
        (if \<not> built (node s) then
           and_then (configure k w)
             (\<lambda>s1. case package_url (node s1) of
                      None \<Rightarrow> (Done, s1)
                    | Some dir \<Rightarrow>
                        and_then
                          (checked w
                             ([''make'', ''--file'', ''Makefile-libbz2_so''] @ prefix_arg w (node s1))
                             (Some dir) (\<lambda>code. ''make returned '' @ str_int code))
                          (and_then (install_dynamic w dir) (Make_build k w)) s1) s
         else (Done, s))
      else Make_build k w s)"

definition build :: "implementation \<Rightarrow> world \<Rightarrow> step" where
  "build k w =
     (if k = Package \<or> k = RapidJSON then Package_build k w
      else if k = BZip2 then BZip2_build k w
      else Make_build k w)"

text \<open>
  \<^verbatim>\<open>Package.install\<close>, \<^verbatim>\<open>Make.install\<close>, \<^verbatim>\<open>LibDeflate.install\<close> and \<^verbatim>\<open>RapidJSON.install\<close>.
\<close>

definition Package_install :: "implementation \<Rightarrow> world \<Rightarrow> step" where
  "Package_install k w s =
     (if \<not> installed (node s) then
        and_then (build k w) (\<lambda>s'. (Done, mark_installed True s')) s
      else (Done, s))"

definition Make_install :: "implementation \<Rightarrow> world \<Rightarrow> step" where
  "Make_install k w s =
     (if \<not> installed (node s) then
        and_then (build k w)
          (\<lambda>s1. case package_url (node s1) of
                   None \<Rightarrow> (Done, s1)
                 | Some dir \<Rightarrow>
                     and_then
                       (checked w
                          ([''make'', make_install_target (node s1)] @ prefix_arg w (node s1) @
                           optional_args (make_build_optional (node s1)))
                          (Some dir) (\<lambda>code. ''make install returned '' @ str_int code))
                       (\<lambda>s2. (Done, mark_installed True s2)) s1) s
      else (Done, s))"

definition rsync_copy :: "world \<Rightarrow> path \<Rightarrow> path \<Rightarrow> path \<Rightarrow> step" where
  "rsync_copy w dir src dst =
     checked w [''rsync'', ''--copy-links'', src, dst] (Some dir)
       (\<lambda>code. ''rsync returned '' @ str_int code)"

definition LibDeflate_install :: "implementation \<Rightarrow> world \<Rightarrow> step" where
  "LibDeflate_install k w s =
     (if \<not> installed (node s) then
        and_then (build k w)
          (\<lambda>s1. case package_url (node s1) of
                   None \<Rightarrow> (Done, s1)
                 | Some dir \<Rightarrow>
                     and_then (rsync_copy w dir (path_join dir ''libdeflate.a'') (lib_prefix w))
                       (and_then
                          (rsync_copy w dir (path_join dir ''libdeflate.h'') (include_prefix w))
                          (and_then
                             (\<lambda>s2. if platform w = ''Linux''
                                   then rsync_copy w dir (path_join dir ''libdeflate.so'')
                                          (lib_prefix w) s2
                                   else (Done, s2))
                             (\<lambda>s3. (Done, mark_installed True s3)))) s1) s
      else (Done, s))"

definition RapidJSON_install :: "implementation \<Rightarrow> world \<Rightarrow> step" where
  "RapidJSON_install k w s =
     (if \<not> installed (node s) then
        and_then (build k w)
          (\<lambda>s1. case package_url (node s1) of
                   None \<Rightarrow> (Done, s1)
                 | Some dir \<Rightarrow>
                     and_then
                       (checked w
                          [''rsync'', ''--recursive'', path_join dir ''include/'', include_prefix w]
                          (Some dir) (\<lambda>code. ''rsync returned '' @ str_int code))
                       (\<lambda>s2. (Done, mark_installed True s2)) s1) s
      else (Done, s))"

definition install :: "implementation \<Rightarrow> world \<Rightarrow> step" where
  "install k w =
     (if k = Package then Package_install k w
      else if k = RapidJSON then RapidJSON_install k w
      else if k = LibDeflate then LibDeflate_install k w
      else Make_install k w)"

text \<open>\<^verbatim>\<open>Make.clean\<close>, and the \<^verbatim>\<open>clean\<close> a package's class inherits.\<close>

definition Make_clean :: "world \<Rightarrow> step" where
  "Make_clean w s =
     (case package_url (node s) of
        None \<Rightarrow> (Done, s)
      | Some dir \<Rightarrow>
          if path_exists (disk s) (path_join dir ''Makefile'') \<and>
             target_arg (make_clean_target (node s)) \<noteq> []
          then
            and_then
              (checked w
                 ([''make''] @ target_arg (make_clean_target (node s)) @ prefix_arg w (node s))
                 (Some dir) (\<lambda>code. ''make clean returned '' @ str_int code))
              (\<lambda>s'. (Done, reset_build_flags s')) s
          else (Done, reset_build_flags s))"

definition clean :: "implementation \<Rightarrow> world \<Rightarrow> step" where
  "clean k w = (if k = Package \<or> k = RapidJSON then Package_clean else Make_clean w)"

text \<open>
  The three actions of \<^verbatim>\<open>PackageManager.execute\<close> on one package: \<^verbatim>\<open>clean\<close>, \<^verbatim>\<open>build\<close>
  (install unless the package is installed already) and \<^verbatim>\<open>clean.package\<close>.
\<close>

datatype action = Clean | Build | CleanPackage

definition perform :: "implementation \<Rightarrow> world \<Rightarrow> action \<Rightarrow> step" where
  "perform k w a s =
     (case a of
        Clean \<Rightarrow> clean k w s
      | Build \<Rightarrow> if \<not> installed (node s) then install k w s else (Done, s)
      | CleanPackage \<Rightarrow> clean_package w s)"

section \<open>The ancestor walk\<close>

declare check_permission_path.simps [simp del]
declare makedirs.simps [simp del]









section \<open>Mirror fallback\<close>





lemma local_content_frame:
  "local_content n target s = Inr (c, s1) \<Longrightarrow>
   node s1 = node s \<and> requests s1 = requests s \<and> commands s1 = commands s"
  by (auto simp: local_content_def warn_def split: sum.splits if_splits option.splits)



definition demo_world :: world where
  "demo_world =
     \<lparr>urlopen = (\<lambda>u. if u = ''https://a.example/z-1.0.tar.gz'' then HTTPError ''404''
                      else if u = ''https://b.example/z-1.0.tar.gz'' then Response ''payload''
                      else URLError ''unreachable''),
      popen = (\<lambda>c d fs. (0, fs)),
      platform = ''Linux'',
      install_prefix = ''/home/install'',
      package_prefix = ''/home/package'',
      include_prefix = ''/home/install/include'',
      lib_prefix = ''/home/install/lib''\<rparr>"

definition demo_node :: node where
  "demo_node =
     \<lparr>name = ''z'', display_name = ''z 1.0'', version = Some ''1.0'',
      sha1 = Some (sha1_hexdigest ''payload''),
      remote_url = Some [''https://a.example/z-1.0.tar.gz'', ''https://b.example/z-1.0.tar.gz'',
                         ''https://c.example/z-1.0.tar.gz''],
      download_url = Some ''/home/z-1.0.tar.gz'',
      package_url = Some ''/home/package/z-1.0'',
      compression = Some ''gz'',
      document_sha1_digest = ''0'',
      configure_optional = None, make_build_optional = None, make_build_target = None,
      make_install_target = ''install'', make_clean_target = Some ''clean'',
      include_prefix_in_make = False,
      unpacked = False, configured = False, built = False, installed = False\<rparr>"

definition demo_state :: pstate where
  "demo_state =
     \<lparr>node = demo_node,
      disk = \<lparr>entries = (\<lambda>p. None)(''/'' \<mapsto> Dir, ''/home'' \<mapsto> Dir),
              wperm = (\<lambda>p. False)(''/home'' := True)\<rparr>,
      commands = [], requests = [], warnings = []\<rparr>"

lemma dirname_demo: "dirname ''/home/z-1.0.tar.gz'' = ''/home''"
  by (simp add: dirname_def strip_head_def head_part_def rstrip_sep_def)

lemma demo_local: "local_content (node demo_state) ''/home/z-1.0.tar.gz'' demo_state = Inr (None, demo_state)"
  by (simp add: local_content_def demo_state_def demo_node_def path_exists_def)

lemma demo_prepare: "prepare_path (disk demo_state) ''/home/z-1.0.tar.gz'' True = Inr (disk demo_state)"
  by (simp add: prepare_path_def check_permission_path.simps [of _ "''/home/z-1.0.tar.gz''"]
      dirname_demo demo_state_def access_W_OK_def path_exists_def)



section \<open>Checksum discipline\<close>








lemma fetch_frame:
  "fetch w n target urls err s = (r, s') \<Longrightarrow> node s' = node s \<and> commands s' = commands s"
proof (induction urls arbitrary: err s)
  case Nil
  then show ?case by auto
next
  case (Cons u us)
  show ?case
  proof (cases "attempt_mirror w n u")
    case (Failed e)
    with Cons.prems have "fetch w n target us (Some e) (warn e (s\<lparr>requests := requests s @ [u]\<rparr>)) = (r, s')"
      by simp
    from Cons.IH [OF this] show ?thesis by (simp add: warn_def)
  next
    case (Fatal e)
    with Cons.prems show ?thesis by auto
  next
    case (Verified content)
    with Cons.prems show ?thesis
      by (auto split: sum.splits)
  qed
qed




lemma download_cases:
  assumes "download_url (node s) = Some target" and "download w s = (r, s')"
  shows "(\<exists>e. local_content (node s) target s = Inl e \<and> r = Raise e \<and> s' = s) \<or>
         (\<exists>c. local_content (node s) target s = Inr (Some c, s') \<and> r = Done) \<or>
         (\<exists>s1. local_content (node s) target s = Inr (None, s1) \<and>
            ((remote_url (node s) = None \<and> r = Raise ValueError \<and> s' = s1) \<or>
             (\<exists>urls. remote_url (node s) = Some urls \<and>
                fetch w (node s) target urls None s1 = (r, s'))))"
proof (cases "local_content (node s) target s")
  case (Inl e)
  with assms show ?thesis by (simp add: download_def)
next
  case (Inr p)
  obtain co s1 where p: "p = (co, s1)" by (cases p)
  from Inr p have n: "node s1 = node s" using local_content_frame by blast
  show ?thesis
  proof (cases co)
    case None
    with assms Inr p n show ?thesis
      by (auto simp: download_def split: option.splits)
  next
    case (Some c)
    with assms Inr p show ?thesis by (simp add: download_def)
  qed
qed












section \<open>Traces and invariants of the lifecycle\<close>

definition zero_exit :: "string list \<times> path option \<times> int \<Rightarrow> bool" where
  "zero_exit c = (snd (snd c) = 0)"

definition command_failed :: "outcome \<Rightarrow> bool" where
  "command_failed r = (case r of Raise (CommandFailedError m) \<Rightarrow> True | other \<Rightarrow> False)"

definition trace_ok :: "outcome \<Rightarrow> (string list \<times> path option \<times> int) list \<Rightarrow> bool" where
  "trace_ok r new =
     (if command_failed r then new \<noteq> [] \<and> list_all zero_exit (butlast new) \<and> \<not> zero_exit (last new)
      else list_all zero_exit new)"

definition traced :: "step \<Rightarrow> bool" where
  "traced f = (\<forall>s r s'. f s = (r, s') \<longrightarrow> (\<exists>new. commands s' = commands s @ new \<and> trace_ok r new))"

lemma and_thenE:
  assumes "and_then f g s = (r, s')"
  obtains (went_on) s1 where "f s = (Done, s1)" "g s1 = (r, s')"
    | (raised) e where "f s = (Raise e, s')" "r = Raise e"
  using assms by (auto simp: and_then_def split: prod.splits outcome.splits)

lemma traced_and_then:
  assumes "\<And>s. traced (f s)" and "\<And>s. traced (g s)"
  shows "traced (\<lambda>s. and_then (f s) (g s) s)"
  unfolding traced_def
proof (intro allI impI)
  fix s r s'
  assume a: "and_then (f s) (g s) s = (r, s')"
  from a show "\<exists>new. commands s' = commands s @ new \<and> trace_ok r new"
  proof (cases rule: and_thenE)
    case (went_on s1)
    from assms(1) [of s] went_on(1) obtain n1 where n1: "commands s1 = commands s @ n1" "list_all zero_exit n1"
      by (fastforce simp: traced_def trace_ok_def command_failed_def)
    from assms(2) [of s] went_on(2) obtain n2 where n2: "commands s' = commands s1 @ n2" "trace_ok r n2"
      unfolding traced_def by blast
    have "trace_ok r (n1 @ n2)"
      using n1(2) n2(2) by (auto simp: trace_ok_def butlast_append)
    with n1 n2 show ?thesis by simp
  next
    case (raised e)
    with assms(1) [of s] show ?thesis unfolding traced_def by blast
  qed
qed

lemma traced_if: "traced f \<Longrightarrow> traced g \<Longrightarrow> traced (\<lambda>s. if b s then f s else g s)"
  by (simp add: traced_def)

lemma traced_case_option:
  "traced f \<Longrightarrow> (\<And>a. traced (g a)) \<Longrightarrow> traced (\<lambda>s. case x s of None \<Rightarrow> f s | Some a \<Rightarrow> g a s)"
  by (auto simp: traced_def split: option.splits)

lemma traced_done: "(\<And>s. commands (h s) = commands s) \<Longrightarrow> traced (\<lambda>s. (Done, h s))"
  by (simp add: traced_def trace_ok_def command_failed_def)

lemma traced_raise: "\<not> command_failed (Raise e) \<Longrightarrow> traced (\<lambda>s. (Raise e, s))"
  by (simp add: traced_def trace_ok_def)

lemma traced_checked: "traced (checked w args cwd msg)"
  by (auto simp: traced_def checked_def run_def trace_ok_def command_failed_def zero_exit_def
      split: prod.splits if_splits)

lemma traced_remove_directory: "traced (remove_directory w d)"
  unfolding remove_directory_def
  by (intro traced_case_option traced_if traced_checked traced_raise traced_done)
    (simp_all add: command_failed_def)

lemma mark_commands [simp]:
  "commands (mark_unpacked b s) = commands s" "commands (mark_configured b s) = commands s"
  "commands (mark_built b s) = commands s" "commands (mark_installed b s) = commands s"
  "commands (reset_build_flags s) = commands s"
  by (simp_all add: mark_unpacked_def mark_configured_def mark_built_def mark_installed_def
      reset_build_flags_def)

lemma traced_clean_package: "traced (clean_package w)"
  unfolding clean_package_def
  by (intro traced_if traced_and_then traced_remove_directory traced_done) simp_all


lemma check_permission_path_error:
  "check_permission_path fs p = Inl e \<Longrightarrow> e = RecursionError \<or> (\<exists>q. e = PermissionDeniedError q)"
proof (induction fs p rule: check_permission_path.induct)
  case (1 fs path)
  from "1.prems" show ?case
    by (subst (asm) check_permission_path.simps) (auto split: if_splits dest: "1.IH" [rotated -1])
qed

lemma prepare_path_error:
  "prepare_path fs p ow = Inl e \<Longrightarrow>
   e = RecursionError \<or> (\<exists>q. e = PermissionDeniedError q) \<or> e = NoOverwriteError p"
  by (auto simp: prepare_path_def split: sum.splits if_splits dest: check_permission_path_error)

lemma fetch_error:
  "fetch w n target urls err s = (Raise e, s') \<Longrightarrow> \<not> command_failed (Raise e)"
proof (induction urls arbitrary: err s)
  case Nil
  then show ?case by (auto simp: command_failed_def)
next
  case (Cons u us)
  show ?case
  proof (cases "attempt_mirror w n u")
    case (Failed x)
    with Cons show ?thesis by auto
  next
    case (Fatal x)
    with Cons.prems show ?thesis
      by (auto simp: command_failed_def attempt_mirror_def split: fetch_result.splits option.splits if_splits)
  next
    case (Verified x)
    with Cons.prems show ?thesis
      by (auto simp: command_failed_def split: sum.splits dest: prepare_path_error)
  qed
qed

lemma local_content_error:
  "local_content n target s = Inl e \<Longrightarrow> \<not> command_failed (Raise e)"
  by (auto simp: local_content_def os_remove_def read_file_def command_failed_def
      split: sum.splits if_splits option.splits entry.splits)

lemma download_frame:
  assumes "download w s = (r, s')"
  shows "node s' = node s \<and> commands s' = commands s \<and> \<not> command_failed r"
proof (cases "download_url (node s)")
  case None
  with assms show ?thesis by (simp add: download_def command_failed_def)
next
  case (Some target)
  from download_cases [OF Some assms] show ?thesis
  proof (elim disjE exE conjE)
    fix e assume "local_content (node s) target s = Inl e" "r = Raise e" "s' = s"
    then show ?thesis using local_content_error by simp
  next
    fix c assume "local_content (node s) target s = Inr (Some c, s')" "r = Done"
    then show ?thesis using local_content_frame by (simp add: command_failed_def)
  next
    fix s1 assume "local_content (node s) target s = Inr (None, s1)"
      "remote_url (node s) = None" "r = Raise ValueError" "s' = s1"
    then show ?thesis using local_content_frame by (simp add: command_failed_def)
  next
    fix s1 urls
    assume l: "local_content (node s) target s = Inr (None, s1)"
      and f: "fetch w (node s) target urls None s1 = (r, s')"
    from local_content_frame [OF l] fetch_frame [OF f] have "node s' = node s \<and> commands s' = commands s"
      by simp
    moreover have "\<not> command_failed r"
    proof (cases r)
      case Done
      then show ?thesis by (simp add: command_failed_def)
    next
      case (Raise e)
      with f show ?thesis using fetch_error by simp
    qed
    ultimately show ?thesis by simp
  qed
qed

lemma traced_download: "traced (download w)"
  using download_frame by (fastforce simp: traced_def trace_ok_def)

lemma traced_extract: "traced (extract_archive w archive)"
  unfolding extract_archive_def
  by (intro traced_if traced_and_then traced_checked traced_raise traced_done)
    (simp_all add: command_failed_def)

lemma traced_unpack: "traced (unpack w)"
  unfolding unpack_def
  by (intro traced_if traced_and_then traced_clean_package traced_case_option traced_download
      traced_extract traced_done) simp_all

lemma traced_configure: "traced (configure k w)"
  unfolding configure_def Package_configure_def Make_configure_def
  by (auto intro!: traced_if traced_and_then traced_unpack traced_case_option traced_checked
      traced_done)

lemma traced_Make_build: "traced (Make_build k w)"
  unfolding Make_build_def
  by (intro traced_if traced_and_then traced_configure traced_case_option traced_checked
      traced_done) simp_all

lemma traced_os_symlink: "traced (os_symlink src dst)"
  unfolding os_symlink_def
  by (intro traced_if traced_raise traced_done) (simp_all add: command_failed_def)

lemma traced_link_versions: "traced (link_versions w full n parts)"
proof (induction n arbitrary: parts)
  case 0
  have "link_versions w full 0 parts = (\<lambda>s. (Done, s))" by (rule ext) simp
  then show ?case by (simp add: traced_done)
next
  case (Suc n)
  have "link_versions w full (Suc n) parts =
      (\<lambda>s. if length parts > 1 then
        and_then
          (os_symlink full (path_join (lib_prefix w) (''libbz2.so.'' @ join_with ''.'' (butlast parts))))
          (link_versions w full n (butlast parts)) s
      else (Done, s))" by (rule ext) simp
  then show ?case
    by (auto intro!: traced_if traced_and_then traced_os_symlink Suc traced_done)
qed

lemma traced_install_dynamic: "traced (install_dynamic w dir)"
  unfolding install_dynamic_def Let_def
  by (intro traced_and_then traced_checked traced_case_option traced_raise traced_link_versions)
    (simp add: command_failed_def)

lemma traced_build: "traced (build k w)"
  unfolding build_def Package_build_def BZip2_build_def
  by (auto intro!: traced_if traced_and_then traced_configure traced_case_option traced_checked
      traced_done traced_Make_build traced_install_dynamic)

lemma traced_install: "traced (install k w)"
  unfolding install_def Package_install_def Make_install_def LibDeflate_install_def
    RapidJSON_install_def rsync_copy_def
  by (auto intro!: traced_if traced_and_then traced_build traced_case_option traced_checked
      traced_done)




definition keeps :: "(node \<Rightarrow> bool) \<Rightarrow> step \<Rightarrow> bool" where
  "keeps Pn f = (\<forall>s r s'. Pn (node s) \<longrightarrow> f s = (r, s') \<longrightarrow> Pn (node s'))"

lemma keepsD: "keeps Pn f \<Longrightarrow> f s = (r, s') \<Longrightarrow> Pn (node s) \<Longrightarrow> Pn (node s')"
  by (auto simp: keeps_def)

lemma keeps_and_then:
  assumes "\<And>s. keeps Pn (f s)" and "\<And>s. keeps Pn (g s)"
  shows "keeps Pn (\<lambda>s. and_then (f s) (g s) s)"
  unfolding keeps_def
proof (intro allI impI)
  fix s r s'
  assume p: "Pn (node s)" and a: "and_then (f s) (g s) s = (r, s')"
  from a show "Pn (node s')"
  proof (cases rule: and_thenE)
    case (went_on s1)
    from keepsD [OF assms(1) went_on(1) p] keepsD [OF assms(2) went_on(2)] show ?thesis by blast
  next
    case (raised e)
    from keepsD [OF assms(1) raised(1) p] show ?thesis .
  qed
qed

lemma keeps_if:
  assumes "keeps Pn f" and "keeps Pn g"
  shows "keeps Pn (\<lambda>s. if b s then f s else g s)"
  unfolding keeps_def
proof (intro allI impI)
  fix s r s'
  assume p: "Pn (node s)" and e: "(if b s then f s else g s) = (r, s')"
  show "Pn (node s')"
  proof (cases "b s")
    case True
    with e have "f s = (r, s')" by simp
    from keepsD [OF assms(1) this p] show ?thesis .
  next
    case False
    with e have "g s = (r, s')" by simp
    from keepsD [OF assms(2) this p] show ?thesis .
  qed
qed

lemma keeps_case_option:
  assumes "keeps Pn f" and "\<And>a. keeps Pn (g a)"
  shows "keeps Pn (\<lambda>s. case x s of None \<Rightarrow> f s | Some a \<Rightarrow> g a s)"
  unfolding keeps_def
proof (intro allI impI)
  fix s r s'
  assume p: "Pn (node s)" and e: "(case x s of None \<Rightarrow> f s | Some a \<Rightarrow> g a s) = (r, s')"
  show "Pn (node s')"
  proof (cases "x s")
    case None
    with e have "f s = (r, s')" by simp
    from keepsD [OF assms(1) this p] show ?thesis .
  next
    case (Some a)
    with e have "g a s = (r, s')" by simp
    from keepsD [OF assms(2) this p] show ?thesis .
  qed
qed

lemma keeps_untouched:
  assumes "\<And>s r s'. f s = (r, s') \<Longrightarrow> node s' = node s"
  shows "keeps Pn f"
  unfolding keeps_def
proof (intro allI impI)
  fix s r s'
  assume p: "Pn (node s)" and e: "f s = (r, s')"
  from assms [OF e] p show "Pn (node s')" by simp
qed

lemma keeps_skip: "keeps Pn (\<lambda>s. (Done, s))"
  by (rule keeps_untouched) simp

lemma keeps_raise: "keeps Pn (\<lambda>s. (Raise e, s))"
  by (rule keeps_untouched) simp

lemma checked_node: "checked w args cwd msg s = (r, s') \<Longrightarrow> node s' = node s"
  by (auto simp: checked_def run_def split: prod.splits if_splits)

lemma keeps_checked: "keeps Pn (checked w args cwd msg)"
  by (rule keeps_untouched) (rule checked_node)

lemma keeps_remove_directory: "keeps Pn (remove_directory w d)"
  unfolding remove_directory_def
  by (intro keeps_case_option keeps_if keeps_checked keeps_raise keeps_skip)

lemma keeps_download: "keeps Pn (download w)"
  by (rule keeps_untouched) (simp add: download_frame)

definition all_false :: "node \<Rightarrow> node" where
  "all_false n = n\<lparr>unpacked := False, configured := False, built := False, installed := False\<rparr>"

lemma mark_node [simp]:
  "node (mark_unpacked b s) = (node s)\<lparr>unpacked := b\<rparr>"
  "node (mark_configured b s) = (node s)\<lparr>configured := b\<rparr>"
  "node (mark_built b s) = (node s)\<lparr>built := b\<rparr>"
  "node (mark_installed b s) = (node s)\<lparr>installed := b\<rparr>"
  "node (reset_build_flags s) = (node s)\<lparr>configured := False, built := False, installed := False\<rparr>"
  by (simp_all add: mark_unpacked_def mark_configured_def mark_built_def mark_installed_def
      reset_build_flags_def)

definition survives_reset :: "(node \<Rightarrow> bool) \<Rightarrow> bool" where
  "survives_reset Pn = (\<forall>n b. Pn n \<longrightarrow> Pn (all_false n) \<and> Pn (n\<lparr>unpacked := b\<rparr>) \<and>
     Pn (n\<lparr>configured := False, built := False, installed := False\<rparr>))"

definition allows_configured :: "(node \<Rightarrow> bool) \<Rightarrow> bool" where
  "allows_configured Pn = (\<forall>n. Pn n \<longrightarrow> Pn (n\<lparr>configured := True\<rparr>))"

definition allows_built :: "(node \<Rightarrow> bool) \<Rightarrow> bool" where
  "allows_built Pn = (\<forall>n. Pn n \<longrightarrow> Pn (n\<lparr>built := True\<rparr>))"

definition allows_installed :: "(node \<Rightarrow> bool) \<Rightarrow> bool" where
  "allows_installed Pn = (\<forall>n. Pn n \<longrightarrow> Pn (n\<lparr>installed := True\<rparr>))"

lemma node_reset_all: "node (reset_build_flags (mark_unpacked False s)) = all_false (node s)"
  by (simp add: all_false_def)

lemma keeps_mark:
  assumes "\<And>n. Pn n \<Longrightarrow> Pn (g n)" and "\<And>s. node (h s) = g (node s)"
  shows "keeps Pn (\<lambda>s. (Done, h s))"
  unfolding keeps_def
proof (intro allI impI)
  fix s r s'
  assume p: "Pn (node s)" and e: "(Done, h s) = (r, s')"
  from e have s': "s' = h s" by simp
  from assms(1) [OF p] have "Pn (g (node s))" .
  then show "Pn (node s')" unfolding s' assms(2) .
qed

lemma survives_resetD:
  assumes "survives_reset Pn" and "Pn n"
  shows "Pn (all_false n)" and "Pn (n\<lparr>unpacked := b\<rparr>)"
    and "Pn (n\<lparr>configured := False, built := False, installed := False\<rparr>)"
proof -
  from assms(1) have "Pn n \<longrightarrow> Pn (all_false n) \<and> Pn (n\<lparr>unpacked := b\<rparr>) \<and>
     Pn (n\<lparr>configured := False, built := False, installed := False\<rparr>)"
    unfolding survives_reset_def by (elim allE)
  with assms(2) have c: "Pn (all_false n) \<and> Pn (n\<lparr>unpacked := b\<rparr>) \<and>
     Pn (n\<lparr>configured := False, built := False, installed := False\<rparr>)"
    by (rule rev_mp)
  from c show "Pn (all_false n)" by (rule conjunct1)
  from c show "Pn (n\<lparr>unpacked := b\<rparr>)" by (rule conjunct1 [OF conjunct2])
  from c show "Pn (n\<lparr>configured := False, built := False, installed := False\<rparr>)"
    by (rule conjunct2 [OF conjunct2])
qed

lemma keeps_reset_all:
  "survives_reset Pn \<Longrightarrow> keeps Pn (\<lambda>s. (Done, reset_build_flags (mark_unpacked False s)))"
  by (rule keeps_mark [where g = all_false]) (erule survives_resetD, assumption, rule node_reset_all)

lemma keeps_reset: "survives_reset Pn \<Longrightarrow> keeps Pn (\<lambda>s. (Done, reset_build_flags s))"
  by (rule keeps_mark [where g = "\<lambda>n. n\<lparr>configured := False, built := False, installed := False\<rparr>"])
    (erule survives_resetD, assumption, rule mark_node)

lemma keeps_mark_unpacked: "survives_reset Pn \<Longrightarrow> keeps Pn (\<lambda>s. (Done, mark_unpacked b s))"
  by (rule keeps_mark [where g = "\<lambda>n. n\<lparr>unpacked := b\<rparr>"])
    (erule survives_resetD, assumption, rule mark_node)

lemma keeps_mark_configured: "allows_configured Pn \<Longrightarrow> keeps Pn (\<lambda>s. (Done, mark_configured True s))"
proof (rule keeps_mark [where g = "\<lambda>n. n\<lparr>configured := True\<rparr>"])
  fix n assume "allows_configured Pn" and "Pn n"
  then show "Pn (n\<lparr>configured := True\<rparr>)" unfolding allows_configured_def by (elim allE impE)
qed (rule mark_node)

lemma keeps_mark_built: "allows_built Pn \<Longrightarrow> keeps Pn (\<lambda>s. (Done, mark_built True s))"
proof (rule keeps_mark [where g = "\<lambda>n. n\<lparr>built := True\<rparr>"])
  fix n assume "allows_built Pn" and "Pn n"
  then show "Pn (n\<lparr>built := True\<rparr>)" unfolding allows_built_def by (elim allE impE)
qed (rule mark_node)

lemma keeps_mark_installed: "allows_installed Pn \<Longrightarrow> keeps Pn (\<lambda>s. (Done, mark_installed True s))"
proof (rule keeps_mark [where g = "\<lambda>n. n\<lparr>installed := True\<rparr>"])
  fix n assume "allows_installed Pn" and "Pn n"
  then show "Pn (n\<lparr>installed := True\<rparr>)" unfolding allows_installed_def by (elim allE impE)
qed (rule mark_node)

lemma keeps_clean_package: "survives_reset Pn \<Longrightarrow> keeps Pn (clean_package w)"
  unfolding clean_package_def
  by (intro keeps_if keeps_and_then keeps_remove_directory keeps_reset_all keeps_skip)

lemma keeps_extract: "survives_reset Pn \<Longrightarrow> keeps Pn (extract_archive w archive)"
  unfolding extract_archive_def
  by (intro keeps_if keeps_and_then keeps_checked keeps_raise keeps_mark_unpacked)

lemma keeps_unpack: "survives_reset Pn \<Longrightarrow> keeps Pn (unpack w)"
  unfolding unpack_def
  by (intro keeps_if keeps_and_then keeps_clean_package keeps_case_option keeps_download
      keeps_extract keeps_skip)


lemma keeps_Package_configure:
  "survives_reset Pn \<Longrightarrow> allows_configured Pn \<Longrightarrow> keeps Pn (Package_configure w)"
  unfolding Package_configure_def
  by (intro keeps_if keeps_and_then keeps_unpack keeps_mark_configured keeps_skip)

lemma keeps_Make_configure:
  "survives_reset Pn \<Longrightarrow> allows_configured Pn \<Longrightarrow> keeps Pn (Make_configure w)"
  unfolding Make_configure_def
  by (intro keeps_if keeps_and_then keeps_unpack keeps_case_option keeps_checked keeps_mark_configured keeps_skip)

lemma keeps_configure:
  "survives_reset Pn \<Longrightarrow> allows_configured Pn \<Longrightarrow> keeps Pn (configure k w)"
  by (simp add: configure_def keeps_Package_configure keeps_Make_configure)

lemma keeps_os_symlink: "keeps Pn (os_symlink src dst)"
  by (rule keeps_untouched) (auto simp: os_symlink_def split: if_splits)

lemma link_versions_Suc:
  "link_versions w full (Suc n) parts =
      (\<lambda>s. if length parts > 1 then
        and_then
          (os_symlink full (path_join (lib_prefix w) (''libbz2.so.'' @ join_with ''.'' (butlast parts))))
          (link_versions w full n (butlast parts)) s
      else (Done, s))"
  by (rule ext) simp

lemma link_versions_0: "link_versions w full 0 parts = (\<lambda>s. (Done, s))"
  by (rule ext) simp

lemma keeps_link_versions: "keeps Pn (link_versions w full n parts)"
proof (induction n arbitrary: parts)
  case 0
  show ?case unfolding link_versions_0 by (rule keeps_skip)
next
  case (Suc n)
  show ?case unfolding link_versions_Suc
    by (intro keeps_if keeps_and_then keeps_os_symlink Suc keeps_skip)
qed

lemma keeps_install_dynamic: "keeps Pn (install_dynamic w dir)"
  unfolding install_dynamic_def Let_def
  by (intro keeps_and_then keeps_checked keeps_case_option keeps_raise keeps_link_versions)

lemma keeps_Package_build:
  "survives_reset Pn \<Longrightarrow> allows_configured Pn \<Longrightarrow> allows_built Pn \<Longrightarrow> keeps Pn (Package_build k w)"
  unfolding Package_build_def
  by (intro keeps_if keeps_and_then keeps_configure keeps_mark_built keeps_skip)

lemma keeps_Make_build:
  "survives_reset Pn \<Longrightarrow> allows_configured Pn \<Longrightarrow> allows_built Pn \<Longrightarrow> keeps Pn (Make_build k w)"
  unfolding Make_build_def
  by (intro keeps_if keeps_and_then keeps_configure keeps_case_option keeps_checked keeps_mark_built keeps_skip)

lemma keeps_BZip2_build:
  "survives_reset Pn \<Longrightarrow> allows_configured Pn \<Longrightarrow> allows_built Pn \<Longrightarrow> keeps Pn (BZip2_build k w)"
  unfolding BZip2_build_def
  by (intro keeps_if keeps_and_then keeps_configure keeps_case_option keeps_checked keeps_skip
      keeps_install_dynamic keeps_Make_build)

lemma keeps_build:
  "survives_reset Pn \<Longrightarrow> allows_configured Pn \<Longrightarrow> allows_built Pn \<Longrightarrow> keeps Pn (build k w)"
  by (simp add: build_def keeps_Package_build keeps_Make_build keeps_BZip2_build)

lemma keeps_Package_install:
  "survives_reset Pn \<Longrightarrow> allows_configured Pn \<Longrightarrow> allows_built Pn \<Longrightarrow> allows_installed Pn \<Longrightarrow>
   keeps Pn (Package_install k w)"
  unfolding Package_install_def
  by (intro keeps_if keeps_and_then keeps_build keeps_mark_installed keeps_skip)

lemma keeps_Make_install:
  "survives_reset Pn \<Longrightarrow> allows_configured Pn \<Longrightarrow> allows_built Pn \<Longrightarrow> allows_installed Pn \<Longrightarrow>
   keeps Pn (Make_install k w)"
  unfolding Make_install_def
  by (intro keeps_if keeps_and_then keeps_build keeps_case_option keeps_checked keeps_mark_installed keeps_skip)

lemma keeps_LibDeflate_install:
  "survives_reset Pn \<Longrightarrow> allows_configured Pn \<Longrightarrow> allows_built Pn \<Longrightarrow> allows_installed Pn \<Longrightarrow>
   keeps Pn (LibDeflate_install k w)"
  unfolding LibDeflate_install_def rsync_copy_def
  by (intro keeps_if keeps_and_then keeps_build keeps_case_option keeps_checked keeps_mark_installed keeps_skip)

lemma keeps_RapidJSON_install:
  "survives_reset Pn \<Longrightarrow> allows_configured Pn \<Longrightarrow> allows_built Pn \<Longrightarrow> allows_installed Pn \<Longrightarrow>
   keeps Pn (RapidJSON_install k w)"
  unfolding RapidJSON_install_def
  by (intro keeps_if keeps_and_then keeps_build keeps_case_option keeps_checked keeps_mark_installed keeps_skip)

lemma keeps_install:
  "survives_reset Pn \<Longrightarrow> allows_configured Pn \<Longrightarrow> allows_built Pn \<Longrightarrow> allows_installed Pn \<Longrightarrow>
   keeps Pn (install k w)"
  by (simp add: install_def keeps_Package_install keeps_Make_install keeps_LibDeflate_install
      keeps_RapidJSON_install)

lemma keeps_Make_clean: "survives_reset Pn \<Longrightarrow> keeps Pn (Make_clean w)"
  unfolding Make_clean_def
  by (intro keeps_if keeps_and_then keeps_case_option keeps_checked keeps_reset keeps_skip)

lemma keeps_clean: "survives_reset Pn \<Longrightarrow> keeps Pn (clean k w)"
  using keeps_reset [of Pn]
  by (simp add: clean_def Package_clean_def [abs_def] keeps_Make_clean)

definition stage_ok :: "node \<Rightarrow> bool" where
  "stage_ok n = ((installed n \<longrightarrow> built n) \<and> (built n \<longrightarrow> configured n) \<and>
     (download_url n \<noteq> None \<longrightarrow> configured n \<longrightarrow> unpacked n))"

definition make_family :: "implementation \<Rightarrow> bool" where
  "make_family k = (k \<noteq> Package \<and> k \<noteq> RapidJSON)"

definition hollow :: "implementation \<Rightarrow> node \<Rightarrow> bool" where
  "hollow k n = (make_family k \<and> package_url n = None)"

definition good :: "implementation \<Rightarrow> node \<Rightarrow> bool" where
  "good k n = (stage_ok n \<and> (hollow k n \<longrightarrow> \<not> configured n \<and> \<not> built n \<and> \<not> installed n))"

lemma all_false_simps [simp]:
  "all_false (n\<lparr>unpacked := b\<rparr>) = all_false n"
  "all_false (n\<lparr>configured := b\<rparr>) = all_false n"
  "all_false (n\<lparr>built := b\<rparr>) = all_false n"
  "all_false (n\<lparr>installed := b\<rparr>) = all_false n"
  "all_false (all_false n) = all_false n"
  "download_url (all_false n) = download_url n"
  "package_url (all_false n) = package_url n"
  "unpacked (all_false n) = False" "configured (all_false n) = False"
  "built (all_false n) = False" "installed (all_false n) = False"
  by (simp_all add: all_false_def)

lemma same_descriptor_survives:
  "survives_reset (\<lambda>n. all_false n = d)" "allows_configured (\<lambda>n. all_false n = d)"
  "allows_built (\<lambda>n. all_false n = d)" "allows_installed (\<lambda>n. all_false n = d)"
  by (auto simp: survives_reset_def allows_configured_def allows_built_def allows_installed_def)

lemma descriptor_fields:
  "all_false n' = all_false n \<Longrightarrow> download_url n' = download_url n \<and> package_url n' = package_url n"
  by (metis all_false_simps(6,7))

lemma remove_directory_node: "remove_directory w d s = (r, s') \<Longrightarrow> node s' = node s"
  by (auto simp: remove_directory_def split: option.splits if_splits dest: checked_node)

lemma clean_package_node:
  "clean_package w s = (r, s') \<Longrightarrow>
   node s' = (if r = Done \<and> download_url (node s) \<noteq> None then all_false (node s) else node s)"
  by (auto simp: clean_package_def all_false_def split: if_splits elim!: and_thenE
      dest: remove_directory_node)

lemma extract_node:
  "extract_archive w a s = (r, s') \<Longrightarrow>
   node s' = (if r = Done then (node s)\<lparr>unpacked := True\<rparr> else node s)"
  by (auto simp: extract_archive_def split: if_splits elim!: and_thenE dest: checked_node)

definition flags :: "node \<Rightarrow> bool \<times> bool \<times> bool \<times> bool" where
  "flags n = (unpacked n, configured n, built n, installed n)"

lemma flags_simps [simp]:
  "flags (all_false n) = (False, False, False, False)"
  "flags (n\<lparr>unpacked := b\<rparr>) = (b, configured n, built n, installed n)"
  "flags (n\<lparr>configured := b\<rparr>) = (unpacked n, b, built n, installed n)"
  "flags (n\<lparr>built := b\<rparr>) = (unpacked n, configured n, b, installed n)"
  "flags (n\<lparr>installed := b\<rparr>) = (unpacked n, configured n, built n, b)"
  by (simp_all add: flags_def all_false_def)

lemma unpack_node:
  assumes "unpack w s = (r, s')"
  shows "all_false (node s') = all_false (node s) \<and>
         (if unpacked (node s) \<or> download_url (node s) = None then r = Done \<and> s' = s
          else if r = Done then flags (node s') = (True, False, False, False)
          else flags (node s') = flags (node s) \<or> flags (node s') = (False, False, False, False))"
proof (cases "unpacked (node s)")
  case True
  with assms show ?thesis by (simp add: unpack_def)
next
  case False
  show ?thesis
  proof (cases "download_url (node s)")
    case None
    with assms False show ?thesis
      by (simp add: unpack_def clean_package_def and_then_def)
  next
    case (Some archive)
    from assms False
    have "and_then (clean_package w)
          (\<lambda>s1. case download_url (node s1) of
                   None \<Rightarrow> (Done, s1)
                 | Some archive \<Rightarrow> and_then (download w) (extract_archive w archive) s1) s = (r, s')"
      by (simp add: unpack_def)
    then show ?thesis
    proof (cases rule: and_thenE)
      case (went_on s1)
      from clean_package_node [OF went_on(1)] Some have n1: "node s1 = all_false (node s)" by simp
      with Some went_on(2) have "and_then (download w) (extract_archive w archive) s1 = (r, s')"
        by simp
      then show ?thesis
      proof (cases rule: and_thenE)
        case (went_on s2)
        from download_frame [OF went_on(1)] n1 have n2: "node s2 = all_false (node s)" by simp
        show ?thesis
        proof (cases "r = Done")
          case True
          with extract_node [OF went_on(2)] n2
          have "node s' = (all_false (node s))\<lparr>unpacked := True\<rparr>" by simp
          then have "all_false (node s') = all_false (node s)"
            and "flags (node s') = (True, False, False, False)" by simp_all
          with True False Some show ?thesis by simp
        next
          case nd: False
          with extract_node [OF went_on(2)] n2 have "node s' = all_false (node s)" by simp
          then have "all_false (node s') = all_false (node s)"
            and "flags (node s') = (False, False, False, False)" by simp_all
          with nd False Some show ?thesis by simp
        qed
      next
        case (raised e)
        from download_frame [OF raised(1)] n1 have "node s' = all_false (node s)" by simp
        then have "all_false (node s') = all_false (node s)"
          and "flags (node s') = (False, False, False, False)" by simp_all
        with raised(2) False Some show ?thesis by simp
      qed
    next
      case (raised e)
      from clean_package_node [OF raised(1)] have "node s' = node s" by simp
      with raised(2) False Some show ?thesis by simp
    qed
  qed
qed

lemma good_flags:
  "good k n = (case flags n of (u, c, b, i) \<Rightarrow>
     (i \<longrightarrow> b) \<and> (b \<longrightarrow> c) \<and> (download_url (all_false n) \<noteq> None \<longrightarrow> c \<longrightarrow> u) \<and>
     (make_family k \<and> package_url (all_false n) = None \<longrightarrow> \<not> c \<and> \<not> b \<and> \<not> i))"
  by (simp add: good_def stage_ok_def hollow_def flags_def)

lemma unpack_good:
  assumes "good k (node s)" and "unpack w s = (r, s')"
  shows "good k (node s') \<and> (r = Done \<and> download_url (node s) \<noteq> None \<longrightarrow> unpacked (node s'))"
proof -
  from unpack_node [OF assms(2)]
  have d: "all_false (node s') = all_false (node s)"
    and f: "if unpacked (node s) \<or> download_url (node s) = None then r = Done \<and> s' = s
          else if r = Done then flags (node s') = (True, False, False, False)
          else flags (node s') = flags (node s) \<or> flags (node s') = (False, False, False, False)"
    by blast+
  show ?thesis
  proof (cases "unpacked (node s) \<or> download_url (node s) = None")
    case True
    with f assms(1) show ?thesis by auto
  next
    case False
    with f have "(r = Done \<and> flags (node s') = (True, False, False, False)) \<or>
        (r \<noteq> Done \<and> (flags (node s') = flags (node s) \<or> flags (node s') = (False, False, False, False)))"
      by (simp split: if_splits)
    with assms(1) d show ?thesis
      by (auto simp: good_flags) (simp_all add: flags_def)
  qed
qed


lemma good_marks:
  "good k n \<Longrightarrow> (download_url n \<noteq> None \<longrightarrow> unpacked n) \<Longrightarrow> \<not> hollow k n \<Longrightarrow>
     good k (n\<lparr>configured := True\<rparr>)"
  "good k n \<Longrightarrow> configured n \<Longrightarrow> \<not> hollow k n \<Longrightarrow> good k (n\<lparr>built := True\<rparr>)"
  "good k n \<Longrightarrow> built n \<Longrightarrow> \<not> hollow k n \<Longrightarrow> good k (n\<lparr>installed := True\<rparr>)"
  "good k n \<Longrightarrow> good k (n\<lparr>configured := False, built := False, installed := False\<rparr>)"
  "good k n \<Longrightarrow> good k (all_false n)"
  by (auto simp: good_def stage_ok_def hollow_def all_false_def)

lemma checked_mark:
  assumes "and_then (checked w args cwd msg) (\<lambda>s2. (Done, h s2)) s = (r, s')"
    and "\<And>s. node (h s) = g (node s)"
  shows "(r = Done \<and> node s' = g (node s)) \<or> (r \<noteq> Done \<and> node s' = node s)"
  using assms(1)
proof (cases rule: and_thenE)
  case (went_on s1)
  from checked_node [OF went_on(1)] went_on(2) assms(2) show ?thesis by auto
next
  case (raised e)
  from checked_node [OF raised(1)] raised(2) show ?thesis by simp
qed

lemma unpack_descriptor: "unpack w s = (r, s') \<Longrightarrow> all_false (node s') = all_false (node s)"
  using unpack_node by blast

lemma hollow_descriptor: "all_false n' = all_false n \<Longrightarrow> hollow k n' = hollow k n"
  using descriptor_fields [of n' n] by (simp add: hollow_def)

lemma Package_configure_good:
  assumes "good k (node s)" and "\<not> make_family k" and "Package_configure w s = (r, s')"
  shows "good k (node s') \<and> (r = Done \<longrightarrow> configured (node s'))"
proof (cases "configured (node s)")
  case True
  with assms show ?thesis by (simp add: Package_configure_def)
next
  case False
  with assms(3) have "and_then (unpack w) (\<lambda>s'. (Done, mark_configured True s')) s = (r, s')"
    by (simp add: Package_configure_def)
  then show ?thesis
  proof (cases rule: and_thenE)
    case (went_on s1)
    from unpack_good [OF assms(1) went_on(1)] unpack_descriptor [OF went_on(1)]
    have g1: "good k (node s1)" and u1: "download_url (node s1) \<noteq> None \<longrightarrow> unpacked (node s1)"
      using descriptor_fields [of "node s1" "node s"] by auto
    from assms(2) have "\<not> hollow k (node s1)" by (simp add: hollow_def)
    from good_marks(1) [OF g1 u1 this] went_on(2) show ?thesis by auto
  next
    case (raised e)
    from unpack_good [OF assms(1) raised(1)] raised(2) show ?thesis by simp
  qed
qed

lemma Make_configure_good:
  assumes "good k (node s)" and "Make_configure w s = (r, s')"
  shows "good k (node s') \<and> (r = Done \<longrightarrow> configured (node s') \<or> package_url (node s') = None)"
proof (cases "configured (node s)")
  case True
  with assms show ?thesis by (simp add: Make_configure_def)
next
  case False
  show ?thesis
  proof (cases "package_url (node s)")
    case None
    with assms False show ?thesis by (simp add: Make_configure_def)
  next
    case (Some dir)
    with assms(2) False have "and_then (unpack w)
               (\<lambda>s1. if path_exists (disk s1) (path_join dir ''configure'') then
                        and_then
                          (checked w
                             ([''./configure'', ''--prefix='' @ install_prefix w] @
                              optional_args (configure_optional (node s1)))
                             (Some dir) (\<lambda>code. ''configure returned '' @ str_int code))
                          (\<lambda>s2. (Done, mark_configured True s2)) s1
                      else (Done, mark_configured True s1)) s = (r, s')"
      by (simp add: Make_configure_def)
    then show ?thesis
    proof (cases rule: and_thenE)
      case (went_on s1)
      from unpack_good [OF assms(1) went_on(1)] unpack_descriptor [OF went_on(1)]
      have g1: "good k (node s1)" and u1: "download_url (node s1) \<noteq> None \<longrightarrow> unpacked (node s1)"
        and p1: "package_url (node s1) = Some dir"
        using descriptor_fields [of "node s1" "node s"] Some by auto
      from p1 have nh: "\<not> hollow k (node s1)" by (simp add: hollow_def)
      have "(r = Done \<and> node s' = (node s1)\<lparr>configured := True\<rparr>) \<or> (r \<noteq> Done \<and> node s' = node s1)"
      proof (cases "path_exists (disk s1) (path_join dir ''configure'')")
        case True
        with went_on(2) show ?thesis using checked_mark [where g = "\<lambda>n. n\<lparr>configured := True\<rparr>"]
          by (simp del: append.simps)
      next
        case False
        with went_on(2) show ?thesis by auto
      qed
      with good_marks(1) [OF g1 u1 nh] g1 show ?thesis by auto
    next
      case (raised e)
      from unpack_good [OF assms(1) raised(1)] raised(2) show ?thesis by simp
    qed
  qed
qed

lemma configure_good:
  assumes "good k (node s)" and "configure k w s = (r, s')"
  shows "good k (node s') \<and> (r = Done \<longrightarrow> configured (node s') \<or> hollow k (node s'))"
proof (cases "make_family k")
  case True
  with assms(2) have "Make_configure w s = (r, s')" by (simp add: configure_def make_family_def)
  from Make_configure_good [OF assms(1) this] True show ?thesis by (auto simp: hollow_def)
next
  case False
  with assms(2) have "Package_configure w s = (r, s')" by (auto simp: configure_def make_family_def)
  from Package_configure_good [OF assms(1) False this] show ?thesis by simp
qed

lemma configure_descriptor: "configure k w s = (r, s') \<Longrightarrow> all_false (node s') = all_false (node s)"
  using keepsD [OF keeps_configure [OF same_descriptor_survives(1,2)]] by blast


definition marks :: "(node \<Rightarrow> node) \<Rightarrow> step \<Rightarrow> bool" where
  "marks g t = (\<forall>s r s'. t s = (r, s') \<longrightarrow>
     (r = Done \<and> node s' = g (node s)) \<or> (r \<noteq> Done \<and> node s' = node s))"

lemma marksD:
  "marks g t \<Longrightarrow> t s = (r, s') \<Longrightarrow>
   (r = Done \<and> node s' = g (node s)) \<or> (r \<noteq> Done \<and> node s' = node s)"
  unfolding marks_def by blast

lemma marks_done: "(\<And>s. node (h s) = g (node s)) \<Longrightarrow> marks g (\<lambda>s. (Done, h s))"
  by (simp add: marks_def)

lemma marks_checked:
  assumes "marks g t"
  shows "marks g (and_then (checked w args cwd msg) t)"
  unfolding marks_def
proof (intro allI impI)
  fix s r s'
  assume "and_then (checked w args cwd msg) t s = (r, s')"
  then show "(r = Done \<and> node s' = g (node s)) \<or> (r \<noteq> Done \<and> node s' = node s)"
  proof (cases rule: and_thenE)
    case (went_on s1)
    from checked_node [OF went_on(1)] marksD [OF assms went_on(2)] show ?thesis by simp
  next
    case (raised e)
    from checked_node [OF raised(1)] raised(2) show ?thesis by simp
  qed
qed

lemma marks_if: "marks g t \<Longrightarrow> marks g u \<Longrightarrow> marks g (\<lambda>s. if b s then t s else u s)"
  by (simp add: marks_def)

lemma untouched_node:
  assumes "\<And>Pn. keeps Pn f" and "f s = (r, s')"
  shows "node s' = node s"
  using keepsD [OF assms(1) assms(2), of "\<lambda>n. n = node s"] by simp

lemma build_descriptor: "build k w s = (r, s') \<Longrightarrow> all_false (node s') = all_false (node s)"
  using keepsD [OF keeps_build [OF same_descriptor_survives(1,2,3)]] by blast

lemma Package_build_good:
  assumes "good k (node s)" and "\<not> make_family k" and "Package_build k w s = (r, s')"
  shows "good k (node s') \<and> (r = Done \<longrightarrow> built (node s'))"
proof (cases "built (node s)")
  case True
  with assms show ?thesis by (simp add: Package_build_def)
next
  case False
  with assms(3) have "and_then (configure k w) (\<lambda>s'. (Done, mark_built True s')) s = (r, s')"
    by (simp add: Package_build_def)
  then show ?thesis
  proof (cases rule: and_thenE)
    case (went_on s1)
    from assms(2) have nh: "\<not> hollow k (node s1)" by (simp add: hollow_def)
    with configure_good [OF assms(1) went_on(1)]
    have g1: "good k (node s1)" and c1: "configured (node s1)" by auto
    from good_marks(2) [OF g1 c1 nh] went_on(2) show ?thesis by auto
  next
    case (raised e)
    from configure_good [OF assms(1) raised(1)] raised(2) show ?thesis by simp
  qed
qed

lemma Make_build_good:
  assumes "good k (node s)" and "Make_build k w s = (r, s')"
  shows "good k (node s') \<and> (r = Done \<longrightarrow> built (node s') \<or> package_url (node s') = None)"
proof (cases "built (node s)")
  case True
  with assms show ?thesis by (simp add: Make_build_def)
next
  case False
  with assms(2) have "and_then (configure k w)
          (\<lambda>s1. case package_url (node s1) of
                   None \<Rightarrow> (Done, s1)
                 | Some dir \<Rightarrow>
                     and_then
                       (checked w
                          ([''make''] @ target_arg (make_build_target (node s1)) @
                           prefix_arg w (node s1) @ optional_args (make_build_optional (node s1)))
                          (Some dir) (\<lambda>code. ''make returned '' @ str_int code))
                       (\<lambda>s2. (Done, mark_built True s2)) s1) s = (r, s')"
    by (simp add: Make_build_def)
  then show ?thesis
  proof (cases rule: and_thenE)
    case (went_on s1)
    from configure_good [OF assms(1) went_on(1)]
    have g1: "good k (node s1)" and c1: "configured (node s1) \<or> hollow k (node s1)" by auto
    show ?thesis
    proof (cases "package_url (node s1)")
      case None
      with went_on(2) g1 show ?thesis by auto
    next
      case (Some dir)
      then have nh: "\<not> hollow k (node s1)" by (simp add: hollow_def)
      with c1 have c: "configured (node s1)" by simp
      from Some went_on(2)
      have "(r = Done \<and> node s' = (node s1)\<lparr>built := True\<rparr>) \<or> (r \<noteq> Done \<and> node s' = node s1)"
        using checked_mark [where g = "\<lambda>n. n\<lparr>built := True\<rparr>"] by (simp del: append.simps)
      with good_marks(2) [OF g1 c nh] g1 show ?thesis by auto
    qed
  next
    case (raised e)
    from configure_good [OF assms(1) raised(1)] raised(2) show ?thesis by simp
  qed
qed

lemma BZip2_build_good:
  assumes "good k (node s)" and "BZip2_build k w s = (r, s')"
  shows "good k (node s') \<and> (r = Done \<longrightarrow> built (node s') \<or> package_url (node s') = None)"
proof (cases "platform w = ''Linux''")
  case False
  with assms(2) have "Make_build k w s = (r, s')" by (simp add: BZip2_build_def)
  from Make_build_good [OF assms(1) this] show ?thesis .
next
  case True
  show ?thesis
  proof (cases "built (node s)")
    case True
    with assms \<open>platform w = ''Linux''\<close> show ?thesis by (simp add: BZip2_build_def)
  next
    case False
    with assms(2) True have "and_then (configure k w)
             (\<lambda>s1. case package_url (node s1) of
                      None \<Rightarrow> (Done, s1)
                    | Some dir \<Rightarrow>
                        and_then
                          (checked w
                             ([''make'', ''--file'', ''Makefile-libbz2_so''] @ prefix_arg w (node s1))
                             (Some dir) (\<lambda>code. ''make returned '' @ str_int code))
                          (and_then (install_dynamic w dir) (Make_build k w)) s1) s = (r, s')"
      by (simp add: BZip2_build_def)
    then show ?thesis
    proof (cases rule: and_thenE)
      case (went_on s1)
      from configure_good [OF assms(1) went_on(1)] have g1: "good k (node s1)" by simp
      show ?thesis
      proof (cases "package_url (node s1)")
        case None
        with went_on(2) g1 show ?thesis by auto
      next
        case (Some dir)
        with went_on(2) have "and_then
                          (checked w
                             ([''make'', ''--file'', ''Makefile-libbz2_so''] @ prefix_arg w (node s1))
                             (Some dir) (\<lambda>code. ''make returned '' @ str_int code))
                          (and_then (install_dynamic w dir) (Make_build k w)) s1 = (r, s')"
          by (simp del: append.simps)
        then show ?thesis
        proof (cases rule: and_thenE)
          case (went_on s2)
          from checked_node [OF went_on(1)] g1 have g2: "good k (node s2)" by simp
          from went_on(2) show ?thesis
          proof (cases rule: and_thenE)
            case (went_on s3)
            from untouched_node [OF keeps_install_dynamic went_on(1)] g2
            have "good k (node s3)" by simp
            from Make_build_good [OF this went_on(2)] show ?thesis .
          next
            case (raised e)
            from untouched_node [OF keeps_install_dynamic raised(1)] g2 raised(2)
            show ?thesis by simp
          qed
        next
          case (raised e)
          from checked_node [OF raised(1)] g1 raised(2) show ?thesis by simp
        qed
      qed
    next
      case (raised e)
      from configure_good [OF assms(1) raised(1)] raised(2) show ?thesis by simp
    qed
  qed
qed

lemma build_good:
  assumes "good k (node s)" and "build k w s = (r, s')"
  shows "good k (node s') \<and> (r = Done \<longrightarrow> built (node s') \<or> hollow k (node s'))"
proof (cases "make_family k")
  case False
  with assms(2) have "Package_build k w s = (r, s')" by (auto simp: build_def make_family_def)
  from Package_build_good [OF assms(1) False this] show ?thesis by simp
next
  case True
  show ?thesis
  proof (cases "k = BZip2")
    case True
    with assms(2) have "BZip2_build k w s = (r, s')" by (simp add: build_def)
    from BZip2_build_good [OF assms(1) this] \<open>make_family k\<close> show ?thesis
      by (auto simp: hollow_def)
  next
    case False
    with assms(2) True have "Make_build k w s = (r, s')" by (simp add: build_def make_family_def)
    from Make_build_good [OF assms(1) this] True show ?thesis by (auto simp: hollow_def)
  qed
qed


lemma marks_untouched:
  assumes "\<And>s r s'. f s = (r, s') \<Longrightarrow> node s' = node s" and "marks g t"
  shows "marks g (and_then f t)"
  unfolding marks_def
proof (intro allI impI)
  fix s r s'
  assume "and_then f t s = (r, s')"
  then show "(r = Done \<and> node s' = g (node s)) \<or> (r \<noteq> Done \<and> node s' = node s)"
  proof (cases rule: and_thenE)
    case (went_on s1)
    from assms(1) [OF went_on(1)] marksD [OF assms(2) went_on(2)] show ?thesis by simp
  next
    case (raised e)
    from assms(1) [OF raised(1)] raised(2) show ?thesis by simp
  qed
qed

lemma install_tail:
  assumes "marks (\<lambda>n. n\<lparr>installed := True\<rparr>) t" and "good k (node s1)"
    and "built (node s1) \<or> hollow k (node s1)" and "package_url (node s1) = Some dir"
    and "t s1 = (r, s')"
  shows "good k (node s')"
proof -
  from assms(4) have nh: "\<not> hollow k (node s1)" by (simp add: hollow_def)
  with assms(3) have b: "built (node s1)" by simp
  from marksD [OF assms(1) assms(5)] good_marks(3) [OF assms(2) b nh] assms(2)
  show ?thesis by auto
qed

lemma Make_install_tail:
  "marks (\<lambda>n. n\<lparr>installed := True\<rparr>)
     (and_then (checked w args cwd msg) (\<lambda>s2. (Done, mark_installed True s2)))"
  by (intro marks_checked marks_done) simp

lemma LibDeflate_install_tail:
  "marks (\<lambda>n. n\<lparr>installed := True\<rparr>)
     (and_then (rsync_copy w dir a b)
        (and_then (rsync_copy w dir c d)
           (and_then (\<lambda>s2. if platform w = ''Linux'' then rsync_copy w dir e f s2 else (Done, s2))
              (\<lambda>s3. (Done, mark_installed True s3)))))"
  unfolding rsync_copy_def
proof (intro marks_checked marks_untouched marks_done)
  fix s r s'
  assume "(if platform w = ''Linux''
        then checked w [''rsync'', ''--copy-links'', e, f] (Some dir)
               (\<lambda>code. ''rsync returned '' @ str_int code) s
        else (Done, s)) = (r, s')"
  then show "node s' = node s" by (auto split: if_splits dest: checked_node)
qed simp

lemma stage_idempotent:
  "unpacked (node s) \<Longrightarrow> unpack w s = (Done, s)"
  "configured (node s) \<Longrightarrow> configure k w s = (Done, s)"
  "built (node s) \<Longrightarrow> build k w s = (Done, s)"
  "installed (node s) \<Longrightarrow> install k w s = (Done, s)"
  by (cases k; simp add: unpack_def configure_def Package_configure_def Make_configure_def
      build_def Package_build_def Make_build_def BZip2_build_def install_def Package_install_def
      RapidJSON_install_def LibDeflate_install_def Make_install_def)+

lemma install_good:
  assumes "good k (node s)" and "install k w s = (r, s')"
  shows "good k (node s')"
proof (cases "installed (node s)")
  case True
  with assms stage_idempotent(4) [OF True, of k w] show ?thesis by simp
next
  case False
  show ?thesis
  proof (cases "k = Package")
    case True
    with assms(2) False
    have "and_then (build k w) (\<lambda>s'. (Done, mark_installed True s')) s = (r, s')"
      by (simp add: install_def Package_install_def)
    then show ?thesis
    proof (cases rule: and_thenE)
      case (went_on s1)
      from True have nh: "\<not> hollow k (node s1)" by (simp add: hollow_def make_family_def)
      with build_good [OF assms(1) went_on(1)]
      have g1: "good k (node s1)" and b1: "built (node s1)" by auto
      from good_marks(3) [OF g1 b1 nh] went_on(2) show ?thesis by auto
    next
      case (raised e)
      from build_good [OF assms(1) raised(1)] show ?thesis by simp
    qed
  next
    case np: False
    obtain t where t: "\<And>dir. marks (\<lambda>n. n\<lparr>installed := True\<rparr>) (t dir)"
      and e: "and_then (build k w)
          (\<lambda>s1. case package_url (node s1) of None \<Rightarrow> (Done, s1) | Some dir \<Rightarrow> t dir s1) s = (r, s')"
    proof (cases "k = RapidJSON")
      case True
      with assms(2) False show ?thesis
        by (intro that [where t = "\<lambda>dir. and_then (checked w
                          [''rsync'', ''--recursive'', path_join dir ''include/'', include_prefix w]
                          (Some dir) (\<lambda>code. ''rsync returned '' @ str_int code))
                       (\<lambda>s2. (Done, mark_installed True s2))"])
          (simp_all add: install_def RapidJSON_install_def Make_install_tail)
    next
      case nr: False
      show ?thesis
      proof (cases "k = LibDeflate")
        case True
        with assms(2) False show ?thesis
          by (intro that [where t = "\<lambda>dir. and_then (rsync_copy w dir (path_join dir ''libdeflate.a'') (lib_prefix w))
                       (and_then
                          (rsync_copy w dir (path_join dir ''libdeflate.h'') (include_prefix w))
                          (and_then
                             (\<lambda>s2. if platform w = ''Linux''
                                   then rsync_copy w dir (path_join dir ''libdeflate.so'')
                                          (lib_prefix w) s2
                                   else (Done, s2))
                             (\<lambda>s3. (Done, mark_installed True s3))))"])
            (simp_all add: install_def LibDeflate_install_def LibDeflate_install_tail)
      next
        case nl: False
        have "\<And>dir. marks (\<lambda>n. n\<lparr>installed := True\<rparr>)
            (\<lambda>s1. and_then
                       (checked w
                          ([''make'', make_install_target (node s1)] @ prefix_arg w (node s1) @
                           optional_args (make_build_optional (node s1)))
                          (Some dir) (\<lambda>code. ''make install returned '' @ str_int code))
                       (\<lambda>s2. (Done, mark_installed True s2)) s1)"
          using Make_install_tail unfolding marks_def by blast
        with assms(2) False np nr nl show ?thesis
          by (intro that [where t = "\<lambda>dir s1. and_then
                       (checked w
                          ([''make'', make_install_target (node s1)] @ prefix_arg w (node s1) @
                           optional_args (make_build_optional (node s1)))
                          (Some dir) (\<lambda>code. ''make install returned '' @ str_int code))
                       (\<lambda>s2. (Done, mark_installed True s2)) s1"])
            (simp_all add: install_def Make_install_def del: append.simps)
      qed
    qed
    from e show ?thesis
    proof (cases rule: and_thenE)
      case (went_on s1)
      from build_good [OF assms(1) went_on(1)]
      have g1: "good k (node s1)" and b1: "built (node s1) \<or> hollow k (node s1)" by auto
      show ?thesis
      proof (cases "package_url (node s1)")
        case None
        with went_on(2) g1 show ?thesis by auto
      next
        case (Some dir)
        with went_on(2) have "t dir s1 = (r, s')" by simp
        from install_tail [OF t g1 b1 Some this] show ?thesis .
      qed
    next
      case (raised e)
      from build_good [OF assms(1) raised(1)] show ?thesis by simp
    qed
  qed
qed

lemma clean_package_good:
  assumes "good k (node s)" and "clean_package w s = (r, s')"
  shows "good k (node s')"
  using clean_package_node [OF assms(2)] assms(1) good_marks(5) [OF assms(1)]
  by (simp split: if_splits)

lemma clean_effect:
  assumes "clean k w s = (r, s')"
  shows "(r = Done \<and> \<not> hollow k (node s) \<and>
            node s' = (node s)\<lparr>configured := False, built := False, installed := False\<rparr>) \<or>
         node s' = node s"
proof (cases "make_family k")
  case False
  with assms show ?thesis by (auto simp: clean_def Package_clean_def make_family_def hollow_def)
next
  case True
  with assms have m: "Make_clean w s = (r, s')" by (simp add: clean_def make_family_def)
  show ?thesis
  proof (cases "package_url (node s)")
    case None
    with m show ?thesis by (simp add: Make_clean_def)
  next
    case (Some dir)
    then have nh: "\<not> hollow k (node s)" by (simp add: hollow_def)
    show ?thesis
    proof (cases "path_exists (disk s) (path_join dir ''Makefile'') \<and>
             target_arg (make_clean_target (node s)) \<noteq> []")
      case True
      with m Some have "and_then
              (checked w
                 ([''make''] @ target_arg (make_clean_target (node s)) @ prefix_arg w (node s))
                 (Some dir) (\<lambda>code. ''make clean returned '' @ str_int code))
              (\<lambda>s'. (Done, reset_build_flags s')) s = (r, s')"
        by (simp add: Make_clean_def del: append.simps)
      from checked_mark [OF this, where g = "\<lambda>n. n\<lparr>configured := False, built := False, installed := False\<rparr>"]
        nh show ?thesis by auto
    next
      case False
      with m Some nh show ?thesis by (auto simp: Make_clean_def)
    qed
  qed
qed

lemma clean_good:
  assumes "good k (node s)" and "clean k w s = (r, s')"
  shows "good k (node s')"
  using clean_effect [OF assms(2)] assms(1) good_marks(4) [OF assms(1)] by auto

lemma perform_good:
  assumes "good k (node s)" and "perform k w a s = (r, s')"
  shows "good k (node s')"
proof (cases a)
  case Clean
  with assms(2) have "clean k w s = (r, s')" by (simp add: perform_def)
  from clean_good [OF assms(1) this] show ?thesis .
next
  case Build
  show ?thesis
  proof (cases "installed (node s)")
    case True
    with assms Build show ?thesis by (simp add: perform_def)
  next
    case False
    with assms(2) Build have "install k w s = (r, s')" by (simp add: perform_def)
    from install_good [OF assms(1) this] show ?thesis .
  qed
next
  case CleanPackage
  with assms(2) have "clean_package w s = (r, s')" by (simp add: perform_def)
  from clean_package_good [OF assms(1) this] show ?thesis .
qed

section \<open>Reachable states\<close>

text \<open>
  What the constructors do to a node beyond \<^verbatim>\<open>Package.__init__\<close>: \<^verbatim>\<open>SAMTools.__init__\<close>
  overwrites the configure options.
\<close>

definition construct :: "implementation \<Rightarrow> world \<Rightarrow> node \<Rightarrow> node" where
  "construct k w n =
     (if k = SAMTools then n\<lparr>configure_optional := Some [''--with-htslib='' @ install_prefix w]\<rparr>
      else n)"

text \<open>
  The nodes a package can have: it starts with the four flags false (the first time its
  digest is seen), and every run constructs the package on the cached node and performs
  one action on it, in any world and on any file system, whether the action returns or
  raises.
\<close>

inductive reachable :: "implementation \<Rightarrow> node \<Rightarrow> bool" for k :: implementation where
  fresh: "\<not> unpacked n \<Longrightarrow> \<not> configured n \<Longrightarrow> \<not> built n \<Longrightarrow> \<not> installed n \<Longrightarrow> reachable k n"
| step: "reachable k (node s) \<Longrightarrow>
         perform k w a (s\<lparr>node := construct k w (node s)\<rparr>) = (r, s') \<Longrightarrow> reachable k (node s')"

lemma construct_good: "good k (construct k w n) = good k n"
  by (simp add: construct_def good_def stage_ok_def hollow_def)

lemma reachable_good: "reachable k n \<Longrightarrow> good k n"
proof (induction rule: reachable.induct)
  case (fresh n)
  then show ?case by (simp add: good_def stage_ok_def)
next
  case (step s w a r s')
  from step.IH have "good k (node (s\<lparr>node := construct k w (node s)\<rparr>))"
    by (simp add: construct_good)
  from perform_good [OF this step.hyps(2)] show ?case .
qed







text \<open>
  One full \<^verbatim>\<open>build\<close> of the example package, as a plain \<^verbatim>\<open>Package\<close> and as a \<^verbatim>\<open>Make\<close>
  package, in the example world where every command returns zero.
\<close>

definition demo_fetched :: pstate where
  "demo_fetched =
     demo_state
       \<lparr>requests := [''https://a.example/z-1.0.tar.gz'', ''https://b.example/z-1.0.tar.gz''],
        warnings := [''Server returned an error when requesting https://a.example/z-1.0.tar.gz: 404''],
        disk := write_file (disk demo_state) ''/home/z-1.0.tar.gz'' ''payload''\<rparr>"


lemma demo_attempts:
  "attempt_mirror demo_world demo_node ''https://a.example/z-1.0.tar.gz'' =
     Failed ''Server returned an error when requesting https://a.example/z-1.0.tar.gz: 404''"
  "attempt_mirror demo_world demo_node ''https://b.example/z-1.0.tar.gz'' = Verified ''payload''"
  by (simp_all add: attempt_mirror_def demo_world_def demo_node_def)

lemma demo_download: "download demo_world demo_state = (Done, demo_fetched)"
proof -
  have n: "node demo_state = demo_node" by (simp add: demo_state_def)
  have f: "fetch demo_world demo_node ''/home/z-1.0.tar.gz''
      [''https://a.example/z-1.0.tar.gz'', ''https://b.example/z-1.0.tar.gz'',
       ''https://c.example/z-1.0.tar.gz''] None demo_state = (Done, demo_fetched)"
    by (simp add: demo_attempts warn_def demo_prepare demo_fetched_def) (simp add: demo_state_def)
  have dl: "download_url (node demo_state) = Some ''/home/z-1.0.tar.gz''"
    and ru: "remote_url (node demo_state) = Some [''https://a.example/z-1.0.tar.gz'',
       ''https://b.example/z-1.0.tar.gz'', ''https://c.example/z-1.0.tar.gz'']"
    by (simp_all add: demo_state_def demo_node_def)
  have "download demo_world demo_state =
      fetch demo_world (node demo_state) ''/home/z-1.0.tar.gz''
        [''https://a.example/z-1.0.tar.gz'', ''https://b.example/z-1.0.tar.gz'',
         ''https://c.example/z-1.0.tar.gz''] None demo_state"
    unfolding download_def dl by (simp add: demo_local ru)
  with f show ?thesis by (simp only: n)
qed




lemma clean_done:
  assumes "clean k w s = (Done, s')"
  shows "node s' = (if hollow k (node s) then node s
                    else (node s)\<lparr>configured := False, built := False, installed := False\<rparr>)"
proof (cases "make_family k")
  case False
  with assms show ?thesis by (auto simp: clean_def Package_clean_def make_family_def hollow_def)
next
  case True
  with assms have m: "Make_clean w s = (Done, s')" by (simp add: clean_def make_family_def)
  show ?thesis
  proof (cases "package_url (node s)")
    case None
    with m True show ?thesis by (simp add: Make_clean_def hollow_def)
  next
    case (Some dir)
    then have nh: "\<not> hollow k (node s)" by (simp add: hollow_def)
    show ?thesis
    proof (cases "path_exists (disk s) (path_join dir ''Makefile'') \<and>
             target_arg (make_clean_target (node s)) \<noteq> []")
      case True
      with m Some have "and_then
              (checked w
                 ([''make''] @ target_arg (make_clean_target (node s)) @ prefix_arg w (node s))
                 (Some dir) (\<lambda>code. ''make clean returned '' @ str_int code))
              (\<lambda>s'. (Done, reset_build_flags s')) s = (Done, s')"
        by (simp add: Make_clean_def del: append.simps)
      from checked_mark [OF this, where g = "\<lambda>n. n\<lparr>configured := False, built := False, installed := False\<rparr>"]
        nh show ?thesis by auto
    next
      case False
      with m Some nh show ?thesis by (auto simp: Make_clean_def)
    qed
  qed
qed

text \<open>
  Claim C8. When \<^verbatim>\<open>clean\<close> returns, for a package of any class in any reachable state,
  the node is the node before with \<open>configured\<close>, \<open>built\<close> and \<open>installed\<close> false:
  the \<open>unpacked\<close> flag, the digest and every descriptor field are what they were, and
  the record is still there.
\<close>

theorem clean_resets_build_flags:
  assumes "reachable k (node s)" and "clean k w s = (Done, s')"
  shows "node s' = (node s)\<lparr>configured := False, built := False, installed := False\<rparr> \<and>
         \<not> configured (node s') \<and> \<not> built (node s') \<and> \<not> installed (node s') \<and>
         unpacked (node s') = unpacked (node s) \<and>
         document_sha1_digest (node s') = document_sha1_digest (node s)"
proof -
  from reachable_good [OF assms(1)]
  have h: "hollow k (node s) \<longrightarrow> \<not> configured (node s) \<and> \<not> built (node s) \<and> \<not> installed (node s)"
    by (simp add: good_def)
  have "node s' = (node s)\<lparr>configured := False, built := False, installed := False\<rparr>"
  proof (cases "hollow k (node s)")
    case True
    with h have "(node s)\<lparr>configured := False, built := False, installed := False\<rparr> = node s"
      by simp
    with clean_done [OF assms(2)] True show ?thesis by simp
  next
    case False
    with clean_done [OF assms(2)] show ?thesis by simp
  qed
  then show ?thesis by simp
qed

definition demo_made :: pstate where
  "demo_made =
     demo_fetched
       \<lparr>node := demo_node\<lparr>unpacked := True, configured := True, built := True, installed := True\<rparr>,
        commands := [([''tar'', ''-x'', ''-z'', ''-f'', ''/home/z-1.0.tar.gz''], Some ''/home/package'', 0),
                     ([''make''], Some ''/home/package/z-1.0'', 0),
                     ([''make'', ''install''], Some ''/home/package/z-1.0'', 0)]\<rparr>"

lemma demo_unpack:
  "unpack demo_world demo_state =
      (Done, demo_fetched\<lparr>node := demo_node\<lparr>unpacked := True\<rparr>,
         commands := [([''tar'', ''-x'', ''-z'', ''-f'', ''/home/z-1.0.tar.gz''], Some ''/home/package'', 0)]\<rparr>)"
proof -
  have cp: "clean_package demo_world demo_state = (Done, demo_state)"
    by (simp add: clean_package_def remove_directory_def and_then_def demo_state_def demo_node_def
        path_exists_def reset_build_flags_def mark_unpacked_def mark_configured_def mark_built_def
        mark_installed_def)
  have ex: "extract_archive demo_world ''/home/z-1.0.tar.gz'' demo_fetched =
      (Done, demo_fetched\<lparr>node := demo_node\<lparr>unpacked := True\<rparr>,
         commands := [([''tar'', ''-x'', ''-z'', ''-f'', ''/home/z-1.0.tar.gz''], Some ''/home/package'', 0)]\<rparr>)"
    by (simp add: extract_archive_def unpack_command_def checked_def run_def and_then_def
        demo_fetched_def demo_state_def demo_node_def demo_world_def mark_unpacked_def)
  have fl: "unpacked (node demo_state) = False"
    "download_url (node demo_state) = Some ''/home/z-1.0.tar.gz''"
    by (simp_all add: demo_state_def demo_node_def)
  show ?thesis by (simp add: unpack_def and_then_def fl cp demo_download ex)
qed

lemma demo_make_build:
  "perform Make demo_world Build (demo_state\<lparr>node := construct Make demo_world (node demo_state)\<rparr>) =
     (Done, demo_made)"
proof -
  have c: "demo_state\<lparr>node := construct Make demo_world (node demo_state)\<rparr> = demo_state"
    by (simp add: construct_def)
  have fl: "configured (node demo_state) = False"
    "built (node demo_state) = False" "installed (node demo_state) = False"
    "package_url (node demo_state) = Some ''/home/package/z-1.0''"
    by (simp_all add: demo_state_def demo_node_def)
  let ?u = "demo_fetched\<lparr>node := demo_node\<lparr>unpacked := True\<rparr>,
         commands := [([''tar'', ''-x'', ''-z'', ''-f'', ''/home/z-1.0.tar.gz''], Some ''/home/package'', 0)]\<rparr>"
  have nc: "\<not> path_exists (disk ?u) (path_join ''/home/package/z-1.0'' ''configure'')"
    by (simp add: demo_fetched_def demo_state_def path_exists_def write_file_def path_join_def)
  have cf: "configure Make demo_world demo_state = (Done, mark_configured True ?u)"
    using nc by (simp add: configure_def Make_configure_def fl and_then_def demo_unpack)
  have w: "popen demo_world = (\<lambda>c d fs. (0, fs))" "install_prefix demo_world = ''/home/install''"
    by (simp_all add: demo_world_def)
  have bd: "build Make demo_world demo_state =
      (Done, demo_fetched\<lparr>node := demo_node\<lparr>unpacked := True, configured := True, built := True\<rparr>,
         commands := [([''tar'', ''-x'', ''-z'', ''-f'', ''/home/z-1.0.tar.gz''], Some ''/home/package'', 0),
                      ([''make''], Some ''/home/package/z-1.0'', 0)]\<rparr>)"
    by (simp add: build_def Make_build_def fl and_then_def cf mark_configured_def mark_built_def
        checked_def run_def w target_arg_def prefix_arg_def optional_args_def demo_node_def)
  show ?thesis
    unfolding c
    by (simp add: perform_def install_def Make_install_def fl and_then_def bd mark_installed_def
        checked_def run_def w prefix_arg_def optional_args_def demo_node_def demo_made_def)
qed

text \<open>\<^verbatim>\<open>clean\<close> after a full build of the example \<^verbatim>\<open>Make\<close> package.\<close>

theorem clean_resets_build_flags_witness:
  "reachable Make (node demo_made) \<and>
   clean Make demo_world demo_made =
     (Done, demo_made\<lparr>node := demo_node\<lparr>unpacked := True\<rparr>\<rparr>) \<and>
   node (snd (clean Make demo_world demo_made)) =
     (node demo_made)\<lparr>configured := False, built := False, installed := False\<rparr>"
proof -
  have "reachable Make (node demo_state)"
    by (rule reachable.fresh) (simp_all add: demo_state_def demo_node_def)
  from reachable.step [OF this demo_make_build] have r: "reachable Make (node demo_made)" .
  have cl: "clean Make demo_world demo_made = (Done, demo_made\<lparr>node := demo_node\<lparr>unpacked := True\<rparr>\<rparr>)"
    by (simp add: clean_def Make_clean_def demo_made_def demo_fetched_def demo_state_def
        demo_node_def path_exists_def write_file_def path_join_def reset_build_flags_def
        mark_configured_def mark_built_def mark_installed_def)
  from clean_resets_build_flags [OF r cl] r cl show ?thesis by simp
qed

end
